theory Spec2Isabelle
  imports Main "HOL-Library.AList" "HOL-Library.Sublist"
begin

section \<open>FitCRM client store: a model of \<^verbatim>\<open>src/js/main.js\<close>\<close>

text \<open>
  The program keeps one array of client objects in \<^verbatim>\<open>localStorage\<close>, serialised as JSON
  under the key \<^verbatim>\<open>fitcrm_clients\<close>. Every handler reads the whole array
  (\<^verbatim>\<open>getClients\<close>), changes it, and writes the whole array back (\<^verbatim>\<open>saveClients\<close>).

  JavaScript strings are modelled as \<^typ>\<open>string\<close> (code units below 256), objects as
  association lists in property insertion order, and the browser (storage item, the
  validation message element, the alert dialogs, the table body) as a record that every
  handler takes and returns. The clock reading \<^verbatim>\<open>Date.now()\<close>, the answer to
  \<^verbatim>\<open>confirm(...)\<close> and the entries of the submitted form are inputs of the handlers that
  use them.

  Property names are the names of the form's fields: ordinary identifiers, none of which
  JavaScript orders or treats specially (array indices, \<^verbatim>\<open>__proto__\<close>). The storage is taken
  to have room for what is written: \<^verbatim>\<open>setItem\<close> does not fail.
\<close>

subsection \<open>Values and objects\<close>

text \<open>The values a client property holds: a string or an integer-valued number.\<close>

datatype jsval = JStr string | JNum int

type_synonym obj = "(string \<times> jsval) list"

text \<open>\<^verbatim>\<open>o[k]\<close>: \<open>None\<close> is \<^verbatim>\<open>undefined\<close>.\<close>

definition get_prop :: "obj \<Rightarrow> string \<Rightarrow> jsval option" where
  "get_prop ob k = map_of ob k"

text \<open>\<^verbatim>\<open>o[k] = v\<close>: an existing property keeps its place, a new one goes last.\<close>

definition set_prop :: "string \<Rightarrow> jsval \<Rightarrow> obj \<Rightarrow> obj" where
  "set_prop k v ob = AList.update k v ob"

text \<open>An object has each property name once.\<close>

definition wf_obj :: "obj \<Rightarrow> bool" where
  "wf_obj ob = distinct (map fst ob)"

subsection \<open>Numbers to strings\<close>

definition digit_char :: "nat \<Rightarrow> char" where
  "digit_char d =
     (if d = 0 then CHR ''0'' else if d = 1 then CHR ''1'' else if d = 2 then CHR ''2''
      else if d = 3 then CHR ''3'' else if d = 4 then CHR ''4'' else if d = 5 then CHR ''5''
      else if d = 6 then CHR ''6'' else if d = 7 then CHR ''7'' else if d = 8 then CHR ''8''
      else CHR ''9'')"

function show_nat :: "nat \<Rightarrow> string" where
  "show_nat n =
     (if n < 10 then [digit_char n] else show_nat (n div 10) @ [digit_char (n mod 10)])"
  by pat_completeness auto
termination
  by (relation "measure id") auto

declare show_nat.simps [simp del]

text \<open>\<^verbatim>\<open>Number.prototype.toString()\<close> on an integer-valued number (below \<open>10\<^sup>2\<^sup>1\<close> in size).\<close>

definition toString :: "int \<Rightarrow> string" where
  "toString n = (if n < 0 then CHR ''-'' # show_nat (nat (- n)) else show_nat (nat n))"

text \<open>String conversion of a property value, as a template literal or \<^verbatim>\<open>RegExp.test\<close> does it.\<close>

fun to_str :: "jsval option \<Rightarrow> string" where
  "to_str None = ''undefined''"
| "to_str (Some (JStr s)) = s"
| "to_str (Some (JNum n)) = toString n"

text \<open>Truthiness: \<^verbatim>\<open>undefined\<close>, the empty string and \<open>0\<close> are falsy.\<close>

fun truthy :: "jsval option \<Rightarrow> bool" where
  "truthy None = False"
| "truthy (Some (JStr s)) = (s \<noteq> [])"
| "truthy (Some (JNum n)) = (n \<noteq> 0)"

subsection \<open>JSON text\<close>

definition dquote :: char where "dquote = CHR 0x22"
definition bslash :: char where "bslash = CHR 0x5C"

definition hexdigit :: "nat \<Rightarrow> char" where
  "hexdigit d = (if d < 10 then digit_char d
     else if d = 10 then CHR ''a'' else if d = 11 then CHR ''b'' else if d = 12 then CHR ''c''
     else if d = 13 then CHR ''d'' else if d = 14 then CHR ''e'' else CHR ''f'')"

text \<open>\<^verbatim>\<open>QuoteJSONString\<close>, one code unit: the short escapes, \<^verbatim>\<open>\u00XX\<close> for the other control
  characters, everything else as it is.\<close>

definition escape_char :: "char \<Rightarrow> string" where
  "escape_char c =
     (if c = CHR 0x08 then [bslash, CHR ''b'']
      else if c = CHR 0x09 then [bslash, CHR ''t'']
      else if c = CHR 0x0A then [bslash, CHR ''n'']
      else if c = CHR 0x0C then [bslash, CHR ''f'']
      else if c = CHR 0x0D then [bslash, CHR ''r'']
      else if c = dquote then [bslash, dquote]
      else if c = bslash then [bslash, bslash]
      else if (of_char c :: nat) < 32 then
        [bslash, CHR ''u'', CHR ''0'', CHR ''0'',
         hexdigit (of_char c div 16), hexdigit (of_char c mod 16)]
      else [c])"

definition quote :: "string \<Rightarrow> string" where
  "quote s = dquote # concat (map escape_char s) @ [dquote]"

fun stringify_val :: "jsval \<Rightarrow> string" where
  "stringify_val (JStr s) = quote s"
| "stringify_val (JNum n) = toString n"

fun join_comma :: "string list \<Rightarrow> string" where
  "join_comma [] = []"
| "join_comma [x] = x"
| "join_comma (x # y # ys) = x @ CHR '','' # join_comma (y # ys)"

definition stringify_member :: "string \<times> jsval \<Rightarrow> string" where
  "stringify_member m = quote (fst m) @ CHR '':'' # stringify_val (snd m)"

definition stringify_obj :: "obj \<Rightarrow> string" where
  "stringify_obj ob = CHR ''{'' # join_comma (map stringify_member ob) @ ''}''"

text \<open>\<^verbatim>\<open>JSON.stringify(clients)\<close> for an array of client objects.\<close>

definition JSON_stringify :: "obj list \<Rightarrow> string" where
  "JSON_stringify clients = CHR ''['' # join_comma (map stringify_obj clients) @ '']''"

text \<open>
  \<^verbatim>\<open>JSON.parse\<close> on the texts of that shape: an array of objects whose members are strings
  or integers, without insignificant white space. \<open>None\<close> stands for a \<^verbatim>\<open>SyntaxError\<close> or
  for a text that is JSON of another shape, which \<^verbatim>\<open>saveClients\<close> never writes.
\<close>

definition is_digit :: "char \<Rightarrow> bool" where
  "is_digit c = (c \<in> set ''0123456789'')"

definition digit_val :: "char \<Rightarrow> nat" where
  "digit_val c = of_char c - 48"

definition hexval :: "char \<Rightarrow> nat option" where
  "hexval c = (let n = (of_char c :: nat) in
     if 48 \<le> n \<and> n \<le> 57 then Some (n - 48)
     else if 97 \<le> n \<and> n \<le> 102 then Some (n - 87)
     else if 65 \<le> n \<and> n \<le> 70 then Some (n - 55)
     else None)"

text \<open>\<^verbatim>\<open>\uXXXX\<close>: the code unit, where it is one of the 256 the model has.\<close>

definition hex4 :: "char \<Rightarrow> char \<Rightarrow> char \<Rightarrow> char \<Rightarrow> char option" where
  "hex4 a b c d =
     (case (hexval a, hexval b, hexval c, hexval d) of
        (Some x, Some y, Some z, Some w) \<Rightarrow>
          (if x = 0 \<and> y = 0 then Some (char_of (16 * z + w)) else None)
      | _ \<Rightarrow> None)"

definition unescape :: "char \<Rightarrow> char option" where
  "unescape e =
     (if e = dquote then Some dquote
      else if e = bslash then Some bslash
      else if e = CHR ''/'' then Some CHR ''/''
      else if e = CHR ''b'' then Some (CHR 0x08)
      else if e = CHR ''f'' then Some (CHR 0x0C)
      else if e = CHR ''n'' then Some (CHR 0x0A)
      else if e = CHR ''r'' then Some (CHR 0x0D)
      else if e = CHR ''t'' then Some (CHR 0x09)
      else None)"

definition cons_fst :: "'a \<Rightarrow> ('a list \<times> 'b) option \<Rightarrow> ('a list \<times> 'b) option" where
  "cons_fst x r = map_option (\<lambda>(xs, rest). (x # xs, rest)) r"

text \<open>The characters of a string literal after its opening quote, up to the closing one.\<close>

fun parse_chars :: "string \<Rightarrow> (string \<times> string) option" where
  "parse_chars [] = None"
| "parse_chars (c # cs) =
     (if c = dquote then Some ([], cs)
      else if c = bslash then
        (case cs of
           [] \<Rightarrow> None
         | e # cs1 \<Rightarrow>
             if e = CHR ''u'' then
               (case cs1 of
                  h1 # h2 # h3 # h4 # cs2 \<Rightarrow>
                    (case hex4 h1 h2 h3 h4 of
                       None \<Rightarrow> None
                     | Some ch \<Rightarrow> cons_fst ch (parse_chars cs2))
                | _ \<Rightarrow> None)
             else
               (case unescape e of
                  None \<Rightarrow> None
                | Some ch \<Rightarrow> cons_fst ch (parse_chars cs1)))
      else if (of_char c :: nat) < 32 then None
      else cons_fst c (parse_chars cs))"

definition parse_string :: "string \<Rightarrow> (string \<times> string) option" where
  "parse_string s = (case s of [] \<Rightarrow> None | c # cs \<Rightarrow> if c = dquote then parse_chars cs else None)"

text \<open>\<^verbatim>\<open>0\<close> or a digit sequence without a leading zero.\<close>

definition parse_nat :: "string \<Rightarrow> (nat \<times> string) option" where
  "parse_nat s =
     (let ds = takeWhile is_digit s in
      if ds = [] \<or> (length ds > 1 \<and> hd ds = CHR ''0'') then None
      else Some (foldl (\<lambda>a d. 10 * a + digit_val d) 0 ds, dropWhile is_digit s))"

definition parse_val :: "string \<Rightarrow> (jsval \<times> string) option" where
  "parse_val s =
     (case s of
        [] \<Rightarrow> None
      | c # cs \<Rightarrow>
          if c = dquote then map_option (\<lambda>(x, rest). (JStr x, rest)) (parse_chars cs)
          else if c = CHR ''-'' then map_option (\<lambda>(n, rest). (JNum (- int n), rest)) (parse_nat cs)
          else map_option (\<lambda>(n, rest). (JNum (int n), rest)) (parse_nat s))"

definition parse_member :: "string \<Rightarrow> ((string \<times> jsval) \<times> string) option" where
  "parse_member s =
     (case parse_string s of
        None \<Rightarrow> None
      | Some (k, rest) \<Rightarrow>
          (case rest of
             [] \<Rightarrow> None
           | c # rest1 \<Rightarrow>
               if c = CHR '':'' then map_option (\<lambda>(v, rest2). ((k, v), rest2)) (parse_val rest1)
               else None))"

text \<open>Each parser consumes input, which is what the two loops below terminate by.\<close>

lemma cons_fst_len: "cons_fst x r = Some (ys, rest) \<Longrightarrow> \<exists>zs. r = Some (zs, rest)"
  by (auto simp: cons_fst_def)

lemma parse_chars_shorter: "parse_chars s = Some (r, rest) \<Longrightarrow> length rest < length s"
proof (induction s arbitrary: r rest rule: parse_chars.induct)
  case 1
  then show ?case by simp
next
  case (2 c cs)
  then show ?case
    by (fastforce split: if_splits list.splits option.splits dest!: cons_fst_len)
qed

lemma parse_string_shorter: "parse_string s = Some (r, rest) \<Longrightarrow> length rest < length s"
  by (auto simp: parse_string_def split: list.splits if_splits dest!: parse_chars_shorter)

lemma parse_nat_shorter: "parse_nat s = Some (n, rest) \<Longrightarrow> length rest < length s"
proof -
  assume a: "parse_nat s = Some (n, rest)"
  have ne: "takeWhile is_digit s \<noteq> []"
    using a by (auto simp: parse_nat_def Let_def split: if_splits)
  have r: "rest = dropWhile is_digit s"
    using a by (auto simp: parse_nat_def Let_def split: if_splits)
  have "0 < length (takeWhile is_digit s)" using ne by simp
  moreover have "length (takeWhile is_digit s) + length (dropWhile is_digit s) = length s"
    by (metis length_append takeWhile_dropWhile_id)
  ultimately show ?thesis unfolding r by linarith
qed

lemma parse_val_shorter: "parse_val s = Some (v, rest) \<Longrightarrow> length rest < length s"
  by (auto simp: parse_val_def split: list.splits if_splits dest!: parse_chars_shorter parse_nat_shorter)

lemma parse_member_shorter: "parse_member s = Some (m, rest) \<Longrightarrow> length rest < length s"
  by (auto simp: parse_member_def split: list.splits if_splits option.splits dest!: parse_string_shorter parse_val_shorter)

function parse_members :: "string \<Rightarrow> ((string \<times> jsval) list \<times> string) option" where
  "parse_members s =
     (case parse_member s of
        None \<Rightarrow> None
      | Some (m, rest) \<Rightarrow>
          (case rest of
             [] \<Rightarrow> None
           | c # rest1 \<Rightarrow>
               if c = CHR ''}'' then Some ([m], rest1)
               else if c = CHR '','' then cons_fst m (parse_members rest1)
               else None))"
  by pat_completeness auto
termination
  by (relation "measure length") (auto dest!: parse_member_shorter)

declare parse_members.simps [simp del]

lemma parse_members_shorter: "parse_members s = Some (ms, rest) \<Longrightarrow> length rest < length s"
proof (induction s arbitrary: ms rest rule: parse_members.induct)
  case (1 s)
  from "1.prems" obtain m r0 where pm: "parse_member s = Some (m, r0)"
    by (subst (asm) parse_members.simps) (auto split: option.splits)
  from "1.prems" pm obtain c r1 where r0: "r0 = c # r1"
    by (subst (asm) parse_members.simps) (auto split: list.splits)
  have len: "length r1 < length s"
    using parse_member_shorter [OF pm] r0 by simp
  show ?case
  proof (cases "c = CHR ''}''")
    case True
    with "1.prems" pm r0 have "rest = r1"
      by (subst (asm) parse_members.simps) simp
    with len show ?thesis by simp
  next
    case False
    with "1.prems" pm r0 have c: "c = CHR '',''" and "cons_fst m (parse_members r1) = Some (ms, rest)"
      by (subst (asm) parse_members.simps, simp split: if_splits)+
    then obtain zs where "parse_members r1 = Some (zs, rest)"
      by (auto dest: cons_fst_len)
    from "1.IH" [OF pm refl r0 False c this] len show ?thesis by simp
  qed
qed

text \<open>Building the object from its members in text order: a repeated name keeps the place
  of its first occurrence and the value of its last.\<close>

definition obj_of_members :: "(string \<times> jsval) list \<Rightarrow> obj" where
  "obj_of_members ms = foldl (\<lambda>ob m. set_prop (fst m) (snd m) ob) [] ms"

definition parse_obj :: "string \<Rightarrow> (obj \<times> string) option" where
  "parse_obj s =
     (case s of
        [] \<Rightarrow> None
      | c # s1 \<Rightarrow>
          if c = CHR ''{'' then
            (case s1 of
               [] \<Rightarrow> None
             | d # s2 \<Rightarrow>
                 if d = CHR ''}'' then Some ([], s2)
                 else map_option (\<lambda>(ms, rest). (obj_of_members ms, rest)) (parse_members s1))
          else None)"

lemma parse_obj_shorter: "parse_obj s = Some (ob, rest) \<Longrightarrow> length rest < length s"
  by (auto simp: parse_obj_def split: list.splits if_splits dest!: parse_members_shorter)

function parse_elements :: "string \<Rightarrow> (obj list \<times> string) option" where
  "parse_elements s =
     (case parse_obj s of
        None \<Rightarrow> None
      | Some (ob, rest) \<Rightarrow>
          (case rest of
             [] \<Rightarrow> None
           | c # rest1 \<Rightarrow>
               if c = CHR '']'' then Some ([ob], rest1)
               else if c = CHR '','' then cons_fst ob (parse_elements rest1)
               else None))"
  by pat_completeness auto
termination
  by (relation "measure length") (auto dest!: parse_obj_shorter)

declare parse_elements.simps [simp del]

definition JSON_parse :: "string \<Rightarrow> obj list option" where
  "JSON_parse s =
     (case s of
        [] \<Rightarrow> None
      | c # s1 \<Rightarrow>
          if c = CHR ''['' then
            (case s1 of
               [] \<Rightarrow> None
             | d # s2 \<Rightarrow>
                 if d = CHR '']'' then (if s2 = [] then Some [] else None)
                 else (case parse_elements s1 of
                         None \<Rightarrow> None
                       | Some (clients, rest) \<Rightarrow> if rest = [] then Some clients else None))
          else None)"

subsection \<open>Strings: lower case, substring, regular expressions\<close>

text \<open>\<^verbatim>\<open>String.prototype.toLowerCase\<close> on code units below 256: the letters A-Z and the
  Latin-1 capitals (\<open>0xC0\<close>-\<open>0xDE\<close> without the multiplication sign \<open>0xD7\<close>) have a lower-case
  form, every other unit stays.\<close>

definition upper_chars :: string where
  "upper_chars = ''ABCDEFGHIJKLMNOPQRSTUVWXYZ'' @
     [CHR 0xC0, CHR 0xC1, CHR 0xC2, CHR 0xC3, CHR 0xC4, CHR 0xC5, CHR 0xC6, CHR 0xC7,
      CHR 0xC8, CHR 0xC9, CHR 0xCA, CHR 0xCB, CHR 0xCC, CHR 0xCD, CHR 0xCE, CHR 0xCF,
      CHR 0xD0, CHR 0xD1, CHR 0xD2, CHR 0xD3, CHR 0xD4, CHR 0xD5, CHR 0xD6,
      CHR 0xD8, CHR 0xD9, CHR 0xDA, CHR 0xDB, CHR 0xDC, CHR 0xDD, CHR 0xDE]"

definition lower_chars :: string where
  "lower_chars = ''abcdefghijklmnopqrstuvwxyz'' @
     [CHR 0xE0, CHR 0xE1, CHR 0xE2, CHR 0xE3, CHR 0xE4, CHR 0xE5, CHR 0xE6, CHR 0xE7,
      CHR 0xE8, CHR 0xE9, CHR 0xEA, CHR 0xEB, CHR 0xEC, CHR 0xED, CHR 0xEE, CHR 0xEF,
      CHR 0xF0, CHR 0xF1, CHR 0xF2, CHR 0xF3, CHR 0xF4, CHR 0xF5, CHR 0xF6,
      CHR 0xF8, CHR 0xF9, CHR 0xFA, CHR 0xFB, CHR 0xFC, CHR 0xFD, CHR 0xFE]"

definition lower_char :: "char \<Rightarrow> char" where
  "lower_char c = (case map_of (zip upper_chars lower_chars) c of None \<Rightarrow> c | Some l \<Rightarrow> l)"

definition toLowerCase :: "string \<Rightarrow> string" where
  "toLowerCase s = map lower_char s"

text \<open>\<^verbatim>\<open>s.includes(t)\<close>: \<open>t\<close> starts at some position of \<open>s\<close>.\<close>

fun str_includes :: "string \<Rightarrow> string \<Rightarrow> bool" where
  "str_includes [] t = (t = [])"
| "str_includes (c # cs) t = (prefix t (c # cs) \<or> str_includes cs t)"

text \<open>Regular expressions, as far as the email pattern needs them, matched by derivatives.
  \<open>NoneOf cs\<close> is a negated character class.\<close>

datatype rx = Never | Empty | Chr char | NoneOf "char list" | Seq rx rx | Alt rx rx | Star rx

fun nullable :: "rx \<Rightarrow> bool" where
  "nullable Never = False"
| "nullable Empty = True"
| "nullable (Chr a) = False"
| "nullable (NoneOf as) = False"
| "nullable (Seq r s) = (nullable r \<and> nullable s)"
| "nullable (Alt r s) = (nullable r \<or> nullable s)"
| "nullable (Star r) = True"

fun deriv :: "char \<Rightarrow> rx \<Rightarrow> rx" where
  "deriv c Never = Never"
| "deriv c Empty = Never"
| "deriv c (Chr a) = (if c = a then Empty else Never)"
| "deriv c (NoneOf as) = (if c \<in> set as then Never else Empty)"
| "deriv c (Seq r s) =
     (if nullable r then Alt (Seq (deriv c r) s) (deriv c s) else Seq (deriv c r) s)"
| "deriv c (Alt r s) = Alt (deriv c r) (deriv c s)"
| "deriv c (Star r) = Seq (deriv c r) (Star r)"

text \<open>\<^verbatim>\<open>/^r$/.test(s)\<close>: the whole of \<open>s\<close> matches \<open>r\<close>.\<close>

fun test :: "rx \<Rightarrow> string \<Rightarrow> bool" where
  "test r [] = nullable r"
| "test r (c # cs) = test (deriv c r) cs"

definition Plus :: "rx \<Rightarrow> rx" where
  "Plus r = Seq r (Star r)"

text \<open>\<^verbatim>\<open>[^\s@]\<close>: the white space of \<^verbatim>\<open>\s\<close> below 256 is tab, line feed, vertical tab, form
  feed, carriage return, space and the no-break space.\<close>

definition not_space_or_at :: rx where
  "not_space_or_at =
     NoneOf [CHR 0x09, CHR 0x0A, CHR 0x0B, CHR 0x0C, CHR 0x0D, CHR '' '', CHR 0xA0, CHR ''@'']"

text \<open>\<^verbatim>\<open>/^[^\s@]+@[^\s@]+\.[^\s@]+$/\<close>\<close>

definition emailRegex :: rx where
  "emailRegex =
     Seq (Plus not_space_or_at) (Seq (Chr CHR ''@'')
       (Seq (Plus not_space_or_at) (Seq (Chr CHR ''.'') (Plus not_space_or_at))))"

subsection \<open>The browser state\<close>

text \<open>The two exceptions the modelled code can raise: \<^verbatim>\<open>JSON.parse\<close> on a text it rejects,
  and a method call on a value that has no such method.\<close>

datatype error = SyntaxError | TypeError

datatype page = PageList | PageForm | PageView

text \<open>
  \<open>storage\<close> is the item under \<^verbatim>\<open>CLIENTS_STORAGE_KEY\<close> (\<open>None\<close>: no such item),
  \<open>validation_message\<close> the text of the \<^verbatim>\<open>validation-message\<close> element, \<open>alerts\<close> the
  alert dialogs shown so far, \<open>rows\<close> the clients in the rows of the table body,
  \<open>viewed\<close> the client on the details page, \<open>page\<close> the page that is not hidden.
\<close>

record state =
  storage :: "string option"
  validation_message :: string
  alerts :: "string list"
  rows :: "obj list"
  viewed :: "obj option"
  page :: page

definition alert :: "string \<Rightarrow> state \<Rightarrow> state" where
  "alert text st = st\<lparr>alerts := alerts st @ [text]\<rparr>"

subsection \<open>Local storage data management\<close>

definition getClients :: "state \<Rightarrow> error + obj list" where
  "getClients st =
     (case storage st of
        None \<Rightarrow> Inr []
      | Some clientsJson \<Rightarrow>
          if clientsJson = [] then Inr []
          else (case JSON_parse clientsJson of
                  None \<Rightarrow> Inl SyntaxError
                | Some clients \<Rightarrow> Inr clients))"

definition saveClients :: "obj list \<Rightarrow> state \<Rightarrow> state" where
  "saveClients clients st = st\<lparr>storage := Some (JSON_stringify clients)\<rparr>"

subsection \<open>The client list\<close>

text \<open>The callback of \<^verbatim>\<open>clients.filter\<close> in \<^verbatim>\<open>renderClientList\<close>: \<^verbatim>\<open>toLowerCase\<close> is a method
  of strings only.\<close>

definition name_includes :: "string \<Rightarrow> obj \<Rightarrow> error + bool" where
  "name_includes filter_text client =
     (case get_prop client ''fullName'' of
        Some (JStr fullName) \<Rightarrow> Inr (str_includes (toLowerCase fullName) (toLowerCase filter_text))
      | _ \<Rightarrow> Inl TypeError)"

text \<open>\<^verbatim>\<open>clients.filter(...)\<close>: a new array; the first exception of the callback ends it.\<close>

fun filteredClients :: "string \<Rightarrow> obj list \<Rightarrow> error + obj list" where
  "filteredClients filter_text [] = Inr []"
| "filteredClients filter_text (client # clients) =
     (case name_includes filter_text client of
        Inl e \<Rightarrow> Inl e
      | Inr keep \<Rightarrow>
          (case filteredClients filter_text clients of
             Inl e \<Rightarrow> Inl e
           | Inr kept \<Rightarrow> Inr (if keep then client # kept else kept)))"

definition renderClientList :: "string \<Rightarrow> state \<Rightarrow> error option \<times> state" where
  "renderClientList filter_text st =
     (case getClients st of
        Inl e \<Rightarrow> (Some e, st)
      | Inr clients \<Rightarrow>
          let st1 = st\<lparr>rows := []\<rparr> in
          if clients = [] then (None, st1)
          else (case filteredClients filter_text clients of
                  Inl e \<Rightarrow> (Some e, st1)
                | Inr shown \<Rightarrow> (None, st1\<lparr>rows := shown\<rparr>)))"

text \<open>\<^verbatim>\<open>handleSearch(query)\<close> with the query given.\<close>

definition handleSearch :: "string \<Rightarrow> state \<Rightarrow> error option \<times> state" where
  "handleSearch query st = renderClientList query st"

subsection \<open>Navigation\<close>

text \<open>\<^verbatim>\<open>setupFormMode\<close>: the message is cleared (the form's input fields are not part of the
  state; a submission brings them as its argument).\<close>

definition setupFormMode :: "state \<Rightarrow> state" where
  "setupFormMode st = st\<lparr>validation_message := []\<rparr>"

definition navigateTo :: "page \<Rightarrow> state \<Rightarrow> error option \<times> state" where
  "navigateTo pageName st =
     (let st1 = st\<lparr>page := pageName\<rparr> in
      if pageName = PageList then renderClientList [] st1
      else if pageName = PageForm then (None, setupFormMode st1)
      else (None, st1))"

subsection \<open>The new/edit form\<close>

text \<open>\<^verbatim>\<open>getFormData\<close>: the entries of the form in order, each value a string; a later entry
  of the same name overwrites the earlier one.\<close>

definition getFormData :: "(string \<times> string) list \<Rightarrow> obj" where
  "getFormData form = foldl (\<lambda>data (key, val). set_prop key (JStr val) data) [] form"

definition validateFormData :: "obj \<Rightarrow> state \<Rightarrow> bool \<times> state" where
  "validateFormData data st =
     (if \<not> truthy (get_prop data ''fullName'') \<or> \<not> truthy (get_prop data ''email'')
         \<or> \<not> truthy (get_prop data ''startDate'')
      then (False, st\<lparr>validation_message :=
              ''Error: Full Name, Email, and Start Date are required.''\<rparr>)
      else if \<not> test emailRegex (to_str (get_prop data ''email''))
      then (False, st\<lparr>validation_message := ''Error: Invalid email format.''\<rparr>)
      else (True, st\<lparr>validation_message := []\<rparr>))"

text \<open>\<^verbatim>\<open>handleFormSubmit\<close>, with the entries of the submitted form and the reading \<open>now\<close> of
  \<^verbatim>\<open>Date.now()\<close>.\<close>

definition handleFormSubmit :: "int \<Rightarrow> (string \<times> string) list \<Rightarrow> state \<Rightarrow> error option \<times> state" where
  "handleFormSubmit now form st =
     (let clientData = getFormData form;
          (ok, st1) = validateFormData clientData st
      in if \<not> ok then (None, st1)
         else (case getClients st1 of
                 Inl e \<Rightarrow> (Some e, st1)
               | Inr clients \<Rightarrow>
                   let isEdit = truthy (get_prop clientData ''id'');
                       clientData1 =
                         (if isEdit then clientData
                          else set_prop ''id'' (JStr (toString now)) clientData);
                       clients1 =
                         (if isEdit then
                            map (\<lambda>client.
                                   if get_prop client ''id'' = get_prop clientData ''id''
                                   then clientData else client) clients
                          else clients @ [clientData1]);
                       st2 = saveClients clients1 st1;
                       st3 = alert (''Client '' @ to_str (get_prop clientData1 ''fullName'') @ '' ''
                                    @ (if isEdit then ''updated'' else ''added'')
                                    @ '' successfully!'') st2
                   in navigateTo PageList st3))"

subsection \<open>Deleting and viewing\<close>

text \<open>\<^verbatim>\<open>handleDelete\<close>; \<open>confirmed\<close> is what \<^verbatim>\<open>confirm(...)\<close> returns.\<close>

definition handleDelete :: "string \<Rightarrow> string \<Rightarrow> bool \<Rightarrow> state \<Rightarrow> error option \<times> state" where
  "handleDelete clientId clientName confirmed st =
     (if confirmed then
        (case getClients st of
           Inl e \<Rightarrow> (Some e, st)
         | Inr clients \<Rightarrow>
             let clients1 = filter (\<lambda>client. get_prop client ''id'' \<noteq> Some (JStr clientId)) clients;
                 st1 = saveClients clients1 st
             in (case renderClientList [] st1 of
                   (Some e, st2) \<Rightarrow> (Some e, st2)
                 | (None, st2) \<Rightarrow> (None, alert (clientName @ '' has been deleted.'') st2)))
      else (None, st))"

text \<open>\<^verbatim>\<open>getClients().find(c => c.id === clientId)\<close>, the lookup of \<^verbatim>\<open>handleView\<close> and
  \<^verbatim>\<open>handleEdit\<close>: the first client with that id, \<open>None\<close> for \<^verbatim>\<open>undefined\<close>.\<close>

definition findClient :: "string \<Rightarrow> state \<Rightarrow> error + obj option" where
  "findClient clientId st =
     (case getClients st of
        Inl e \<Rightarrow> Inl e
      | Inr clients \<Rightarrow> Inr (find (\<lambda>c. get_prop c ''id'' = Some (JStr clientId)) clients))"

text \<open>\<^verbatim>\<open>handleView\<close>, up to the request for exercise suggestions, which touches neither the
  storage nor the client shown.\<close>

definition handleView :: "string \<Rightarrow> state \<Rightarrow> error option \<times> state" where
  "handleView clientId st =
     (case findClient clientId st of
        Inl e \<Rightarrow> (Some e, st)
      | Inr None \<Rightarrow> (None, alert ''Client not found!'' st)
      | Inr (Some client) \<Rightarrow> navigateTo PageView (st\<lparr>viewed := Some client\<rparr>))"

subsection \<open>The state at page load, and the spec's trimming\<close>

text \<open>Nothing stored, nothing shown yet; the list page is the one displayed.\<close>

definition initial_state :: state where
  "initial_state = \<lparr>storage = None, validation_message = [], alerts = [], rows = [],
     viewed = None, page = PageList\<rparr>"

definition is_space :: "char \<Rightarrow> bool" where
  "is_space c = (c \<in> set [CHR 0x09, CHR 0x0A, CHR 0x0B, CHR 0x0C, CHR 0x0D, CHR '' '', CHR 0xA0])"

text \<open>From the spec's words, not from the code (which never trims): a string with the white
  space at both ends removed.\<close>

definition spec_trim :: "string \<Rightarrow> string" where
  "spec_trim s = rev (dropWhile is_space (rev (dropWhile is_space s)))"

subsection \<open>Notions used in the statements\<close>

text \<open>A client that the list can render: its \<open>fullName\<close> is a string.\<close>

definition has_name :: "obj \<Rightarrow> bool" where
  "has_name ob = (case get_prop ob ''fullName'' of Some (JStr s) \<Rightarrow> True | _ \<Rightarrow> False)"

text \<open>Records that the model serialises as JavaScript does: each property once, numbers within
  the integers a JavaScript number holds exactly.\<close>

definition safe_integer :: "int \<Rightarrow> bool" where
  "safe_integer n = (\<bar>n\<bar> \<le> 9007199254740991)"

fun storable_val :: "jsval \<Rightarrow> bool" where
  "storable_val (JStr s) = True"
| "storable_val (JNum n) = safe_integer n"

definition storable :: "obj \<Rightarrow> bool" where
  "storable ob = (wf_obj ob \<and> list_all (\<lambda>m. storable_val (snd m)) ob)"

text \<open>From the spec's words: the name contains the query as a case-insensitive substring.\<close>

definition contains_ci :: "string \<Rightarrow> string \<Rightarrow> bool" where
  "contains_ci name query = (\<exists>ps ss. toLowerCase name = ps @ toLowerCase query @ ss)"

definition name_contains_ci :: "string \<Rightarrow> obj \<Rightarrow> bool" where
  "name_contains_ci query ob =
     (case get_prop ob ''fullName'' of Some (JStr s) \<Rightarrow> contains_ci s query | _ \<Rightarrow> False)"

text \<open>The age of a client as the spec's table types it (absent or an integer), and as the
  form handler writes it (absent or a string).\<close>

definition age_absent_or_integer :: "obj \<Rightarrow> bool" where
  "age_absent_or_integer ob =
     (case get_prop ob ''age'' of None \<Rightarrow> True | Some (JNum n) \<Rightarrow> True | Some (JStr s) \<Rightarrow> False)"

definition age_absent_or_string :: "obj \<Rightarrow> bool" where
  "age_absent_or_string ob =
     (case get_prop ob ''age'' of None \<Rightarrow> True | Some (JStr s) \<Rightarrow> True | Some (JNum n) \<Rightarrow> False)"

text \<open>Every property of the object is a string.\<close>

definition string_valued :: "obj \<Rightarrow> bool" where
  "string_valued ob = list_all (\<lambda>m. case snd m of JStr s \<Rightarrow> True | JNum n \<Rightarrow> False) ob"

text \<open>The stored clients can be read and each of them satisfies \<open>P\<close>.\<close>

definition stores_all :: "(obj \<Rightarrow> bool) \<Rightarrow> state \<Rightarrow> bool" where
  "stores_all P st = (case getClients st of Inl e \<Rightarrow> False | Inr clients \<Rightarrow> list_all P clients)"

text \<open>The states the page goes through: from the state at page load, by any handler on any
  input.\<close>

inductive reachable :: "state \<Rightarrow> bool" where
  start: "reachable initial_state"
| submit: "reachable st \<Longrightarrow> reachable (snd (handleFormSubmit now form st))"
| delete: "reachable st \<Longrightarrow> reachable (snd (handleDelete clientId clientName confirmed st))"
| search: "reachable st \<Longrightarrow> reachable (snd (handleSearch query st))"
| view: "reachable st \<Longrightarrow> reachable (snd (handleView clientId st))"
| navigate: "reachable st \<Longrightarrow> reachable (snd (navigateTo pageName st))"

text \<open>Sample clients and forms for the closed instances below.\<close>

definition client_ann :: obj where
  "client_ann = [(''id'', JStr ''1''), (''fullName'', JStr ''Ann Lee''),
     (''email'', JStr ''ann@example.com''), (''startDate'', JStr ''2024-01-01'')]"

definition client_bob :: obj where
  "client_bob = [(''id'', JStr ''2''), (''fullName'', JStr ''Bob Ray''),
     (''email'', JStr ''bob@example.com''), (''startDate'', JStr ''2024-02-01'')]"

definition form_bob :: "(string \<times> string) list" where
  "form_bob = [(''id'', ''2''), (''fullName'', ''Bob Ray''),
     (''email'', ''bob@example.com''), (''startDate'', ''2024-02-01'')]"

definition form_bob_bad_email :: "(string \<times> string) list" where
  "form_bob_bad_email = [(''id'', ''2''), (''fullName'', ''Bob Ray''),
     (''email'', ''not-an-email''), (''startDate'', ''2024-02-01'')]"

definition form_edit_cy :: "(string \<times> string) list" where
  "form_edit_cy = [(''id'', ''3''), (''fullName'', ''Cy Orr''),
     (''email'', ''cy@example.com''), (''startDate'', ''2024-03-01'')]"

definition form_edit_ann :: "(string \<times> string) list" where
  "form_edit_ann = [(''id'', ''1''), (''fullName'', ''Ann Lee-Ray''),
     (''email'', ''ann@example.org''), (''startDate'', ''2024-01-01'')]"

definition form_new_ann :: "(string \<times> string) list" where
  "form_new_ann = [(''id'', ''''), (''fullName'', ''Ann Lee''), (''age'', ''30''),
     (''email'', ''ann@example.com''), (''startDate'', ''2024-01-01'')]"

definition form_new_bob :: "(string \<times> string) list" where
  "form_new_bob = [(''id'', ''''), (''fullName'', ''Bob Ray''), (''age'', ''''),
     (''email'', ''bob@example.com''), (''startDate'', ''2024-02-01'')]"

definition created_ann :: obj where
  "created_ann = [(''id'', JStr ''1700000000000''), (''fullName'', JStr ''Ann Lee''),
     (''age'', JStr ''30''), (''email'', JStr ''ann@example.com''),
     (''startDate'', JStr ''2024-01-01'')]"

definition created_bob :: obj where
  "created_bob = [(''id'', JStr ''1700000000000''), (''fullName'', JStr ''Bob Ray''),
     (''age'', JStr ''''), (''email'', JStr ''bob@example.com''),
     (''startDate'', JStr ''2024-02-01'')]"

subsection \<open>Parsing what was serialised\<close>

text \<open>Every escape that \<^const>\<open>escape_char\<close> writes is read back as the character it stands for.\<close>

lemma hexval_hexdigit: "d < 16 \<Longrightarrow> hexval (hexdigit d) = Some d"
proof -
  assume "d < 16"
  then have "d = 0 \<or> d = 1 \<or> d = 2 \<or> d = 3 \<or> d = 4 \<or> d = 5 \<or> d = 6 \<or> d = 7
    \<or> d = 8 \<or> d = 9 \<or> d = 10 \<or> d = 11 \<or> d = 12 \<or> d = 13 \<or> d = 14 \<or> d = 15"
    by arith
  then show ?thesis
    by (elim disjE) (simp_all add: hexval_def hexdigit_def digit_char_def)
qed

lemma hexval_zero: "hexval CHR ''0'' = Some 0"
  by (simp add: hexval_def)

lemma hex4_control:
  "(of_char c :: nat) < 32 \<Longrightarrow>
   hex4 CHR ''0'' CHR ''0'' (hexdigit (of_char c div 16)) (hexdigit (of_char c mod 16)) = Some c"
proof -
  assume a: "(of_char c :: nat) < 32"
  have "(of_char c :: nat) div 16 < 16" using a by simp
  moreover have "(of_char c :: nat) mod 16 < 16" by simp
  ultimately show ?thesis
    by (simp add: hex4_def hexval_zero hexval_hexdigit)
qed

lemma parse_chars_escape: "parse_chars (escape_char c @ t) = cons_fst c (parse_chars t)"
proof (cases "(of_char c :: nat) < 32")
  case True
  then have nq: "c \<noteq> dquote" "c \<noteq> bslash"
    by (auto simp: dquote_def bslash_def)
  show ?thesis
    using True nq
    by (simp add: escape_char_def unescape_def hex4_control) (simp add: dquote_def bslash_def)
next
  case False
  then have "c \<noteq> CHR 0x08" "c \<noteq> CHR 0x09" "c \<noteq> CHR 0x0A" "c \<noteq> CHR 0x0C" "c \<noteq> CHR 0x0D"
    by auto
  with False show ?thesis
    by (simp add: escape_char_def unescape_def) (simp add: dquote_def bslash_def)
qed

lemma parse_chars_quote:
  "parse_chars (concat (map escape_char s) @ dquote # rest) = Some (s, rest)"
  by (induction s) (simp_all add: parse_chars_escape cons_fst_def)

lemma parse_string_quote: "parse_string (quote s @ rest) = Some (s, rest)"
  by (simp add: parse_string_def quote_def parse_chars_quote)

text \<open>Decimal digits.\<close>

lemma is_digit_digit_char: "d < 10 \<Longrightarrow> is_digit (digit_char d)"
  by (simp add: is_digit_def digit_char_def)

lemma digit_val_digit_char: "d < 10 \<Longrightarrow> digit_val (digit_char d) = d"
proof -
  assume "d < 10"
  then have "d = 0 \<or> d = 1 \<or> d = 2 \<or> d = 3 \<or> d = 4 \<or> d = 5 \<or> d = 6 \<or> d = 7 \<or> d = 8 \<or> d = 9"
    by arith
  then show ?thesis
    by (elim disjE) (simp_all add: digit_val_def digit_char_def)
qed

lemma digit_char_zero: "d < 10 \<Longrightarrow> digit_char d = CHR ''0'' \<Longrightarrow> d = 0"
  by (simp add: digit_char_def split: if_splits)

lemma show_nat_digits: "list_all is_digit (show_nat n)"
proof (induction n rule: show_nat.induct)
  case (1 n)
  show ?case
  proof (cases "n < 10")
    case True
    then show ?thesis by (subst show_nat.simps) (simp add: is_digit_digit_char)
  next
    case False
    with 1 show ?thesis by (subst show_nat.simps) (simp add: is_digit_digit_char)
  qed
qed

lemma show_nat_nonempty: "show_nat n \<noteq> []"
  by (subst show_nat.simps) simp

lemma show_nat_value: "foldl (\<lambda>a d. 10 * a + digit_val d) 0 (show_nat n) = n"
proof (induction n rule: show_nat.induct)
  case (1 n)
  show ?case
  proof (cases "n < 10")
    case True
    then show ?thesis by (subst show_nat.simps) (simp add: digit_val_digit_char)
  next
    case False
    with 1 show ?thesis by (subst show_nat.simps) (simp add: digit_val_digit_char)
  qed
qed

lemma show_nat_leading: "0 < n \<Longrightarrow> hd (show_nat n) \<noteq> CHR ''0''"
proof (induction n rule: show_nat.induct)
  case (1 n)
  show ?case
  proof (cases "n < 10")
    case True
    with "1.prems" show ?thesis
      by (subst show_nat.simps) (auto dest: digit_char_zero)
  next
    case False
    then have "0 < n div 10" by simp
    with 1 False show ?thesis
      by (subst show_nat.simps) (simp add: show_nat_nonempty)
  qed
qed

lemma show_nat_single: "1 < length (show_nat n) \<Longrightarrow> 0 < n"
  by (subst (asm) show_nat.simps) (auto split: if_splits)

definition starts_digit :: "string \<Rightarrow> bool" where
  "starts_digit s = (case s of [] \<Rightarrow> False | c # _ \<Rightarrow> is_digit c)"

lemma parse_nat_show_nat:
  assumes "\<not> starts_digit rest"
  shows "parse_nat (show_nat n @ rest) = Some (n, rest)"
proof -
  have d: "\<forall>c\<in>set (show_nat n). is_digit c"
    using show_nat_digits [of n] by (simp add: list_all_iff)
  have r: "takeWhile is_digit rest = []" "dropWhile is_digit rest = rest"
    using assms by (cases rest; simp add: starts_digit_def)+
  have t: "takeWhile is_digit (show_nat n @ rest) = show_nat n"
    using d r by simp
  have dr: "dropWhile is_digit (show_nat n @ rest) = rest"
    using d r by simp
  have l: "\<not> (1 < length (show_nat n) \<and> hd (show_nat n) = CHR ''0'')"
    using show_nat_single show_nat_leading by blast
  show ?thesis
    unfolding parse_nat_def Let_def t dr using l
    by (simp add: show_nat_nonempty show_nat_value)
qed

lemma hd_show_nat: "is_digit (hd (show_nat n))"
  using show_nat_digits [of n] show_nat_nonempty [of n]
  by (cases "show_nat n") simp_all

lemma parse_val_stringify:
  assumes "\<not> starts_digit rest"
  shows "parse_val (stringify_val v @ rest) = Some (v, rest)"
proof (cases v)
  case (JStr s)
  then show ?thesis
    by (simp add: parse_val_def quote_def parse_chars_quote)
next
  case (JNum n)
  show ?thesis
  proof (cases "n < 0")
    case True
    then show ?thesis
      using JNum assms
      by (simp add: parse_val_def toString_def parse_nat_show_nat dquote_def)
  next
    case False
    obtain c cs where cs: "show_nat (nat n) = c # cs"
      using show_nat_nonempty [of "nat n"] by (cases "show_nat (nat n)") auto
    then have "is_digit c" using hd_show_nat [of "nat n"] by simp
    then have c: "c \<noteq> dquote" "c \<noteq> CHR ''-''"
      by (auto simp: is_digit_def dquote_def)
    have "parse_nat (c # cs @ rest) = Some (nat n, rest)"
      using parse_nat_show_nat [OF assms, of "nat n"] cs by simp
    then show ?thesis
      using JNum False cs c by (simp add: parse_val_def toString_def)
  qed
qed

lemma parse_member_stringify:
  assumes "\<not> starts_digit rest"
  shows "parse_member (stringify_member m @ rest) = Some (m, rest)"
  using assms
  by (simp add: parse_member_def stringify_member_def parse_string_quote parse_val_stringify)

lemma parse_members_stringify:
  "ms \<noteq> [] \<Longrightarrow>
   parse_members (join_comma (map stringify_member ms) @ CHR ''}'' # rest) = Some (ms, rest)"
proof (induction ms rule: list_nonempty_induct)
  case (single m)
  have "\<not> starts_digit (CHR ''}'' # rest)" by (simp add: starts_digit_def is_digit_def)
  then show ?case
    by (subst parse_members.simps) (simp add: parse_member_stringify)
next
  case (cons m ms)
  obtain m' ms' where ms: "ms = m' # ms'" using cons.hyps by (cases ms) auto
  have nd: "\<not> starts_digit (CHR '','' # t)" for t by (simp add: starts_digit_def is_digit_def)
  show ?case
    using cons.IH unfolding ms
    by (subst parse_members.simps) (simp add: parse_member_stringify nd cons_fst_def)
qed

lemma update_fresh: "k \<notin> fst ` set ob \<Longrightarrow> AList.update k v ob = ob @ [(k, v)]"
  by (induction ob) auto

lemma obj_of_members_append:
  "distinct (map fst (acc @ ms)) \<Longrightarrow>
   foldl (\<lambda>ob m. set_prop (fst m) (snd m) ob) acc ms = acc @ ms"
proof (induction ms arbitrary: acc)
  case Nil
  then show ?case by simp
next
  case (Cons m ms)
  have "fst m \<notin> fst ` set acc" using Cons.prems by auto
  then have "set_prop (fst m) (snd m) acc = acc @ [m]"
    by (simp add: set_prop_def update_fresh)
  moreover have "distinct (map fst ((acc @ [m]) @ ms))" using Cons.prems by simp
  ultimately show ?case using Cons.IH [of "acc @ [m]"] by simp
qed

lemma obj_of_members_wf: "wf_obj ob \<Longrightarrow> obj_of_members ob = ob"
  using obj_of_members_append [of "[]" ob] by (simp add: obj_of_members_def wf_obj_def)

lemma stringify_member_head: "\<exists>t. stringify_member m = dquote # t"
  by (simp add: stringify_member_def quote_def)

lemma join_comma_head: "xs \<noteq> [] \<Longrightarrow> \<forall>x\<in>set xs. \<exists>t. x = c # t \<Longrightarrow> \<exists>t. join_comma xs = c # t"
  by (induction xs rule: join_comma.induct) auto

lemma parse_obj_stringify:
  assumes "wf_obj ob"
  shows "parse_obj (stringify_obj ob @ rest) = Some (ob, rest)"
proof (cases "ob = []")
  case True
  then show ?thesis by (simp add: parse_obj_def stringify_obj_def)
next
  case False
  then obtain t where t: "join_comma (map stringify_member ob) = dquote # t"
    using join_comma_head [of "map stringify_member ob" dquote] stringify_member_head by auto
  have "parse_members (dquote # t @ CHR ''}'' # rest) = Some (ob, rest)"
    using parse_members_stringify [OF False, of rest] t by simp
  then show ?thesis
    using assms t by (simp add: parse_obj_def stringify_obj_def obj_of_members_wf dquote_def)
qed

lemma parse_elements_stringify:
  "clients \<noteq> [] \<Longrightarrow> list_all wf_obj clients \<Longrightarrow>
   parse_elements (join_comma (map stringify_obj clients) @ CHR '']'' # rest) = Some (clients, rest)"
proof (induction clients rule: list_nonempty_induct)
  case (single ob)
  then show ?case
    by (subst parse_elements.simps) (simp add: parse_obj_stringify)
next
  case (cons ob obs)
  obtain ob' obs' where obs: "obs = ob' # obs'" using cons.hyps by (cases obs) auto
  show ?case
    using cons.IH cons.prems unfolding obs
    by (subst parse_elements.simps) (simp add: parse_obj_stringify cons_fst_def)
qed

lemma JSON_roundtrip:
  assumes "list_all wf_obj clients"
  shows "JSON_parse (JSON_stringify clients) = Some clients"
proof (cases "clients = []")
  case True
  then show ?thesis by (simp add: JSON_parse_def JSON_stringify_def)
next
  case False
  then obtain t where t: "join_comma (map stringify_obj clients) = CHR ''{'' # t"
    using join_comma_head [of "map stringify_obj clients" "CHR ''{''"]
    by (auto simp: stringify_obj_def)
  have "parse_elements (CHR ''{'' # t @ '']'') = Some (clients, [])"
    using parse_elements_stringify [OF False assms, of "[]"] t by simp
  then show ?thesis
    using t by (simp add: JSON_parse_def JSON_stringify_def)
qed

text \<open>Whatever parses is a list of well-formed objects.\<close>

lemma wf_obj_set_prop: "wf_obj ob \<Longrightarrow> wf_obj (set_prop k v ob)"
  by (simp add: wf_obj_def set_prop_def distinct_update)

lemma wf_obj_foldl:
  "wf_obj acc \<Longrightarrow> wf_obj (foldl (\<lambda>ob m. set_prop (fst m) (snd m) ob) acc ms)"
  by (induction ms arbitrary: acc) (simp_all add: wf_obj_set_prop)

lemma wf_obj_of_members: "wf_obj (obj_of_members ms)"
proof -
  have "wf_obj []" by (simp add: wf_obj_def)
  then show ?thesis unfolding obj_of_members_def by (rule wf_obj_foldl)
qed

lemma parse_obj_wf: "parse_obj s = Some (ob, rest) \<Longrightarrow> wf_obj ob"
  by (auto simp: parse_obj_def wf_obj_of_members split: list.splits if_splits)
     (simp add: wf_obj_def)

lemma parse_elements_wf: "parse_elements s = Some (obs, rest) \<Longrightarrow> list_all wf_obj obs"
proof (induction s arbitrary: obs rest rule: parse_elements.induct)
  case (1 s)
  from "1.prems" obtain ob r0 where po: "parse_obj s = Some (ob, r0)"
    by (subst (asm) parse_elements.simps) (auto split: option.splits)
  from "1.prems" po obtain c r1 where r0: "r0 = c # r1"
    by (subst (asm) parse_elements.simps) (auto split: list.splits)
  have wf: "wf_obj ob" using parse_obj_wf [OF po] .
  show ?case
  proof (cases "c = CHR '']''")
    case True
    with "1.prems" po r0 have "obs = [ob]"
      by (subst (asm) parse_elements.simps) simp
    with wf show ?thesis by simp
  next
    case False
    with "1.prems" po r0 have c: "c = CHR '',''"
      and "cons_fst ob (parse_elements r1) = Some (obs, rest)"
      by (subst (asm) parse_elements.simps, simp split: if_splits)+
    then obtain zs where zs: "parse_elements r1 = Some (zs, rest)" and obs: "obs = ob # zs"
      by (auto simp: cons_fst_def)
    from "1.IH" [OF po refl r0 False c zs] wf obs show ?thesis by simp
  qed
qed

lemma JSON_parse_wf: "JSON_parse s = Some clients \<Longrightarrow> list_all wf_obj clients"
  by (auto simp: JSON_parse_def split: list.splits if_splits option.splits dest: parse_elements_wf)

section \<open>Properties of the handlers\<close>

lemmas eval_form = getFormData_def set_prop_def get_prop_def
lemmas eval_validate = validateFormData_def emailRegex_def Plus_def not_space_or_at_def

subsection \<open>Form data\<close>

lemma getFormData_strings_aux:
  "\<forall>k v. map_of acc k = Some v \<longrightarrow> (\<exists>s. v = JStr s) \<Longrightarrow>
   map_of (foldl (\<lambda>data (key, val). set_prop key (JStr val) data) acc form) k = Some v \<Longrightarrow>
   \<exists>s. v = JStr s"
proof (induction form arbitrary: acc)
  case Nil
  then show ?case by simp
next
  case (Cons e form)
  obtain key val where e: "e = (key, val)" by (cases e)
  have "\<forall>k v. map_of (set_prop key (JStr val) acc) k = Some v \<longrightarrow> (\<exists>s. v = JStr s)"
    using Cons.prems(1) by (auto simp: set_prop_def update_conv')
  from Cons.IH [OF this] Cons.prems(2) show ?case by (simp add: e)
qed

lemma getFormData_strings:
  "get_prop (getFormData form) k = Some v \<Longrightarrow> \<exists>s. v = JStr s"
  using getFormData_strings_aux [of "[]" form k v] by (simp add: get_prop_def getFormData_def)

subsection \<open>Validation of the full name\<close>

text \<open>
  C3, as the spec states it: a candidate whose \<open>fullName\<close> is empty after trimming white
  space is rejected. The code does not trim: a name of three spaces, with a well-formed
  email and a start date, is accepted.
\<close>

theorem validate_accepts_blank_name:
  "spec_trim ''   '' = [] \<and>
   fst (validateFormData (getFormData [(''fullName'', ''   ''), (''email'', ''jane@example.com''),
          (''startDate'', ''2024-01-01'')]) initial_state)"
  by (simp add: spec_trim_def is_space_def eval_form eval_validate)

text \<open>
  C3, amended: \<^const>\<open>validateFormData\<close> accepts a submitted form exactly when its
  \<open>fullName\<close>, \<open>email\<close> and \<open>startDate\<close> are present and not the empty string and the
  email matches the pattern. So a form whose \<open>fullName\<close> is missing or empty is rejected,
  and the name is not trimmed: any non-empty \<open>fullName\<close>, also one of white space only, is
  accepted when the email and start date rules hold.
\<close>

theorem validate_accepts_exactly:
  "fst (validateFormData (getFormData form) st) \<longleftrightarrow>
   (\<exists>name email date.
      get_prop (getFormData form) ''fullName'' = Some (JStr name) \<and> name \<noteq> [] \<and>
      get_prop (getFormData form) ''email'' = Some (JStr email) \<and> email \<noteq> [] \<and>
      test emailRegex email \<and>
      get_prop (getFormData form) ''startDate'' = Some (JStr date) \<and> date \<noteq> [])"
proof
  let ?data = "getFormData form"
  assume a: "fst (validateFormData ?data st)"
  have t: "truthy (get_prop ?data ''fullName'')" "truthy (get_prop ?data ''email'')"
    "truthy (get_prop ?data ''startDate'')" "test emailRegex (to_str (get_prop ?data ''email''))"
    using a by (auto simp: validateFormData_def split: if_splits)
  have str: "\<exists>s. get_prop ?data k = Some (JStr s) \<and> s \<noteq> []" if "truthy (get_prop ?data k)" for k
  proof -
    from that obtain v where v: "get_prop ?data k = Some v"
      by (cases "get_prop ?data k") auto
    then obtain s where "v = JStr s" using getFormData_strings by blast
    with v that show ?thesis by auto
  qed
  from str [OF t(1)] obtain name where n: "get_prop ?data ''fullName'' = Some (JStr name)" "name \<noteq> []"
    by blast
  from str [OF t(2)] obtain email where e: "get_prop ?data ''email'' = Some (JStr email)" "email \<noteq> []"
    by blast
  from str [OF t(3)] obtain date where d: "get_prop ?data ''startDate'' = Some (JStr date)" "date \<noteq> []"
    by blast
  from t(4) e(1) have "test emailRegex email" by simp
  with n e d show "\<exists>name email date.
      get_prop ?data ''fullName'' = Some (JStr name) \<and> name \<noteq> [] \<and>
      get_prop ?data ''email'' = Some (JStr email) \<and> email \<noteq> [] \<and>
      test emailRegex email \<and>
      get_prop ?data ''startDate'' = Some (JStr date) \<and> date \<noteq> []"
    by blast
next
  assume "\<exists>name email date.
      get_prop (getFormData form) ''fullName'' = Some (JStr name) \<and> name \<noteq> [] \<and>
      get_prop (getFormData form) ''email'' = Some (JStr email) \<and> email \<noteq> [] \<and>
      test emailRegex email \<and>
      get_prop (getFormData form) ''startDate'' = Some (JStr date) \<and> date \<noteq> []"
  then show "fst (validateFormData (getFormData form) st)"
    by (auto simp: validateFormData_def)
qed

theorem validate_accepts_exactly_witness:
  "spec_trim [CHR 0x09, CHR '' ''] = [] \<and>
   fst (validateFormData (getFormData [(''fullName'', [CHR 0x09, CHR '' '']),
          (''email'', ''jane@example.com''), (''startDate'', ''2024-01-01'')]) initial_state) \<and>
   \<not> fst (validateFormData (getFormData [(''fullName'', ''''),
          (''email'', ''jane@example.com''), (''startDate'', ''2024-01-01'')]) initial_state)"
proof -
  have r: "\<exists>name email date.
      get_prop (getFormData [(''fullName'', [CHR 0x09, CHR '' '']),
          (''email'', ''jane@example.com''), (''startDate'', ''2024-01-01'')]) ''fullName''
        = Some (JStr name) \<and> name \<noteq> [] \<and>
      get_prop (getFormData [(''fullName'', [CHR 0x09, CHR '' '']),
          (''email'', ''jane@example.com''), (''startDate'', ''2024-01-01'')]) ''email''
        = Some (JStr email) \<and> email \<noteq> [] \<and>
      test emailRegex email \<and>
      get_prop (getFormData [(''fullName'', [CHR 0x09, CHR '' '']),
          (''email'', ''jane@example.com''), (''startDate'', ''2024-01-01'')]) ''startDate''
        = Some (JStr date) \<and> date \<noteq> []"
    by (simp add: eval_form emailRegex_def Plus_def not_space_or_at_def)
  have acc: "fst (validateFormData (getFormData [(''fullName'', [CHR 0x09, CHR '' '']),
          (''email'', ''jane@example.com''), (''startDate'', ''2024-01-01'')]) initial_state)"
    using validate_accepts_exactly [THEN iffD2, OF r] .
  have rej: "\<not> fst (validateFormData (getFormData [(''fullName'', ''''),
          (''email'', ''jane@example.com''), (''startDate'', ''2024-01-01'')]) initial_state)"
    unfolding validate_accepts_exactly by (simp add: eval_form)
  have tr: "spec_trim [CHR 0x09, CHR '' ''] = []"
    by (simp add: spec_trim_def is_space_def)
  from tr acc rej show ?thesis by blast
qed

subsection \<open>Storage\<close>

lemma JSON_stringify_nonempty: "JSON_stringify clients \<noteq> []"
  by (simp add: JSON_stringify_def)

lemma getClients_stored:
  "storage st = Some (JSON_stringify clients) \<Longrightarrow> list_all wf_obj clients \<Longrightarrow>
   getClients st = Inr clients"
  by (simp add: getClients_def JSON_stringify_nonempty JSON_roundtrip)

lemma getClients_saveClients:
  "list_all wf_obj clients \<Longrightarrow> getClients (saveClients clients st) = Inr clients"
  by (rule getClients_stored) (simp_all add: saveClients_def)

lemma getClients_wf: "getClients st = Inr clients \<Longrightarrow> list_all wf_obj clients"
  by (auto simp: getClients_def split: option.splits if_splits dest: JSON_parse_wf)

lemma getClients_same_storage: "storage st' = storage st \<Longrightarrow> getClients st' = getClients st"
  by (simp add: getClients_def)

lemma wf_getFormData_aux:
  "wf_obj acc \<Longrightarrow> wf_obj (foldl (\<lambda>data (key, val). set_prop key (JStr val) data) acc form)"
  by (induction form arbitrary: acc) (auto simp: wf_obj_set_prop)

lemma wf_getFormData: "wf_obj (getFormData form)"
proof -
  have "wf_obj []" by (simp add: wf_obj_def)
  then show ?thesis unfolding getFormData_def by (rule wf_getFormData_aux)
qed

subsection \<open>What rendering and navigation leave alone\<close>

lemma renderClientList_storage [simp]: "storage (snd (renderClientList q st)) = storage st"
  by (simp add: renderClientList_def Let_def split: sum.splits)

lemma renderClientList_alerts [simp]: "alerts (snd (renderClientList q st)) = alerts st"
  by (simp add: renderClientList_def Let_def split: sum.splits)

lemma renderClientList_message [simp]:
  "validation_message (snd (renderClientList q st)) = validation_message st"
  by (simp add: renderClientList_def Let_def split: sum.splits)

lemma navigateTo_storage [simp]: "storage (snd (navigateTo p st)) = storage st"
  by (simp add: navigateTo_def Let_def setupFormMode_def)

lemma navigateTo_list_alerts [simp]: "alerts (snd (navigateTo PageList st)) = alerts st"
  by (simp add: navigateTo_def Let_def)

lemma validateFormData_storage [simp]: "storage (snd (validateFormData data st)) = storage st"
  by (simp add: validateFormData_def)

lemma validateFormData_alerts [simp]: "alerts (snd (validateFormData data st)) = alerts st"
  by (simp add: validateFormData_def)

lemma validateFormData_rejects:
  "\<not> fst (validateFormData data st) \<Longrightarrow>
   snd (validateFormData data st) =
     st\<lparr>validation_message := ''Error: Full Name, Email, and Start Date are required.''\<rparr> \<or>
   snd (validateFormData data st) = st\<lparr>validation_message := ''Error: Invalid email format.''\<rparr>"
  by (auto simp: validateFormData_def split: if_splits)

subsection \<open>Submitting the form\<close>

text \<open>The array that a valid submission writes.\<close>

lemma handleFormSubmit_rejected:
  "\<not> fst (validateFormData (getFormData form) st) \<Longrightarrow>
   handleFormSubmit now form st = (None, snd (validateFormData (getFormData form) st))"
proof -
  assume a: "\<not> fst (validateFormData (getFormData form) st)"
  obtain ok st1 where v: "validateFormData (getFormData form) st = (ok, st1)"
    by (cases "validateFormData (getFormData form) st")
  with a have "\<not> ok" by simp
  then show ?thesis by (simp add: handleFormSubmit_def Let_def v)
qed

lemma handleFormSubmit_edit_storage:
  assumes "fst (validateFormData (getFormData form) st)"
    and "getClients st = Inr clients"
    and "truthy (get_prop (getFormData form) ''id'')"
  shows "storage (snd (handleFormSubmit now form st)) =
     Some (JSON_stringify (map (\<lambda>client.
        if get_prop client ''id'' = get_prop (getFormData form) ''id''
        then getFormData form else client) clients))"
proof -
  obtain ok st1 where v: "validateFormData (getFormData form) st = (ok, st1)"
    by (cases "validateFormData (getFormData form) st")
  have ok: "ok" using assms(1) v by simp
  have "storage st1 = storage st" using validateFormData_storage [of "getFormData form" st] v by simp
  then have g: "getClients st1 = Inr clients"
    using assms(2) getClients_same_storage by metis
  show ?thesis
    using assms(3) ok g
    by (simp add: handleFormSubmit_def Let_def v saveClients_def alert_def)
qed

lemma handleFormSubmit_create_storage:
  assumes "fst (validateFormData (getFormData form) st)"
    and "getClients st = Inr clients"
    and "\<not> truthy (get_prop (getFormData form) ''id'')"
  shows "storage (snd (handleFormSubmit now form st)) =
     Some (JSON_stringify (clients @ [set_prop ''id'' (JStr (toString now)) (getFormData form)]))"
proof -
  obtain ok st1 where v: "validateFormData (getFormData form) st = (ok, st1)"
    by (cases "validateFormData (getFormData form) st")
  have ok: "ok" using assms(1) v by simp
  have "storage st1 = storage st" using validateFormData_storage [of "getFormData form" st] v by simp
  then have g: "getClients st1 = Inr clients"
    using assms(2) getClients_same_storage by metis
  show ?thesis
    using assms(3) ok g
    by (simp add: handleFormSubmit_def Let_def v saveClients_def alert_def)
qed

lemma handleFormSubmit_edit_clients:
  assumes "fst (validateFormData (getFormData form) st)"
    and "getClients st = Inr clients"
    and "truthy (get_prop (getFormData form) ''id'')"
  shows "getClients (snd (handleFormSubmit now form st)) =
     Inr (map (\<lambda>client.
        if get_prop client ''id'' = get_prop (getFormData form) ''id''
        then getFormData form else client) clients)"
proof (rule getClients_stored [OF handleFormSubmit_edit_storage [OF assms]])
  have "list_all wf_obj clients" using assms(2) by (rule getClients_wf)
  then show "list_all wf_obj (map (\<lambda>client.
        if get_prop client ''id'' = get_prop (getFormData form) ''id''
        then getFormData form else client) clients)"
    by (induction clients) (simp_all add: wf_getFormData)
qed

lemma handleFormSubmit_create_clients:
  assumes "fst (validateFormData (getFormData form) st)"
    and "getClients st = Inr clients"
    and "\<not> truthy (get_prop (getFormData form) ''id'')"
  shows "getClients (snd (handleFormSubmit now form st)) =
     Inr (clients @ [set_prop ''id'' (JStr (toString now)) (getFormData form)])"
proof (rule getClients_stored [OF handleFormSubmit_create_storage [OF assms]])
  have "list_all wf_obj clients" using assms(2) by (rule getClients_wf)
  then show "list_all wf_obj (clients @ [set_prop ''id'' (JStr (toString now)) (getFormData form)])"
    by (simp add: wf_getFormData wf_obj_set_prop)
qed

lemma handleFormSubmit_alerts:
  assumes "fst (validateFormData (getFormData form) st)"
    and "getClients st = Inr clients"
  shows "alerts (snd (handleFormSubmit now form st)) =
     alerts st @ [''Client '' @ to_str (get_prop (getFormData form) ''fullName'') @ '' ''
        @ (if truthy (get_prop (getFormData form) ''id'') then ''updated'' else ''added'')
        @ '' successfully!'']"
proof -
  obtain ok st1 where v: "validateFormData (getFormData form) st = (ok, st1)"
    by (cases "validateFormData (getFormData form) st")
  have ok: "ok" using assms(1) v by simp
  have s: "storage st1 = storage st" and a: "alerts st1 = alerts st"
    using validateFormData_storage [of "getFormData form" st]
      validateFormData_alerts [of "getFormData form" st] v by simp_all
  then have g: "getClients st1 = Inr clients"
    using assms(2) getClients_same_storage by metis
  have n: "get_prop (set_prop ''id'' x (getFormData form)) ''fullName'' =
      get_prop (getFormData form) ''fullName''" for x
    by (simp add: get_prop_def set_prop_def update_conv')
  show ?thesis
    using ok g a
    by (simp add: handleFormSubmit_def Let_def v saveClients_def alert_def n)
qed

subsection \<open>Filtering and rendering\<close>

lemma str_includes_iff: "str_includes s t \<longleftrightarrow> (\<exists>ps ss. s = ps @ t @ ss)"
proof (induction s)
  case Nil
  then show ?case by simp
next
  case (Cons c cs)
  show ?case
  proof
    assume "str_includes (c # cs) t"
    then consider "prefix t (c # cs)" | "str_includes cs t" by auto
    then show "\<exists>ps ss. c # cs = ps @ t @ ss"
    proof cases
      case 1
      then obtain ss where "c # cs = t @ ss" by (auto simp: prefix_def)
      then have "c # cs = [] @ t @ ss" by simp
      then show ?thesis by blast
    next
      case 2
      then obtain ps ss where "cs = ps @ t @ ss" using Cons.IH by blast
      then have "c # cs = (c # ps) @ t @ ss" by simp
      then show ?thesis by blast
    qed
  next
    assume "\<exists>ps ss. c # cs = ps @ t @ ss"
    then obtain ps ss where e: "c # cs = ps @ t @ ss" by blast
    show "str_includes (c # cs) t"
    proof (cases ps)
      case Nil
      with e have "prefix t (c # cs)" by (simp add: prefix_def)
      then show ?thesis by simp
    next
      case (Cons p ps')
      with e have "cs = ps' @ t @ ss" by simp
      then have "str_includes cs t" using Cons.IH by blast
      then show ?thesis by simp
    qed
  qed
qed


lemma filteredClients_named:
  "list_all has_name records \<Longrightarrow>
   filteredClients q records = Inr (filter (name_contains_ci q) records)"
proof (induction records)
  case Nil
  then show ?case by simp
next
  case (Cons r records)
  from Cons.prems obtain s where s: "get_prop r ''fullName'' = Some (JStr s)"
    by (auto simp: has_name_def split: option.splits jsval.splits)
  have "name_includes q r = Inr (name_contains_ci q r)"
    by (simp add: name_includes_def name_contains_ci_def contains_ci_def s str_includes_iff)
  with Cons show ?case by simp
qed


lemma renderClientList_named:
  assumes "getClients st = Inr records" and "list_all has_name records"
  shows "renderClientList q st = (None, st\<lparr>rows := filter (name_contains_ci q) records\<rparr>)"
  using assms by (simp add: renderClientList_def Let_def filteredClients_named)

lemma navigateTo_list_named:
  assumes "getClients st = Inr records" and "list_all has_name records"
  shows "fst (navigateTo PageList st) = None"
proof -
  have "getClients (st\<lparr>page := PageList\<rparr>) = Inr records"
    using assms(1) getClients_same_storage [of "st\<lparr>page := PageList\<rparr>" st] by simp
  from renderClientList_named [OF this assms(2)] show ?thesis
    by (simp add: navigateTo_def Let_def)
qed

lemma has_name_getFormData:
  "fst (validateFormData (getFormData form) st) \<Longrightarrow> has_name (getFormData form)"
proof -
  assume a: "fst (validateFormData (getFormData form) st)"
  then have t: "truthy (get_prop (getFormData form) ''fullName'')"
    by (auto simp: validateFormData_def split: if_splits)
  then obtain v where v: "get_prop (getFormData form) ''fullName'' = Some v"
    by (cases "get_prop (getFormData form) ''fullName''") auto
  then obtain s where "v = JStr s" using getFormData_strings by blast
  with v show ?thesis by (simp add: has_name_def)
qed

lemma has_name_set_id: "has_name ob \<Longrightarrow> has_name (set_prop ''id'' x ob)"
  by (simp add: has_name_def get_prop_def set_prop_def update_conv')

lemma handleFormSubmit_no_error:
  assumes "fst (validateFormData (getFormData form) st)"
    and "getClients st = Inr clients"
    and "list_all has_name clients"
  shows "fst (handleFormSubmit now form st) = None"
proof -
  let ?data = "getFormData form"
  let ?edited = "map (\<lambda>client. if get_prop client ''id'' = get_prop ?data ''id''
     then ?data else client) clients"
  let ?added = "clients @ [set_prop ''id'' (JStr (toString now)) ?data]"
  obtain ok st1 where v: "validateFormData ?data st = (ok, st1)"
    by (cases "validateFormData ?data st")
  have ok: "ok" using assms(1) v by simp
  have "storage st1 = storage st" using validateFormData_storage [of ?data st] v by simp
  then have g: "getClients st1 = Inr clients"
    using assms(2) getClients_same_storage by metis
  have wf: "list_all wf_obj ?edited" "list_all wf_obj ?added"
    using getClients_wf [OF assms(2)]
    by (auto simp: list_all_iff wf_getFormData wf_obj_set_prop)
  have nm: "list_all has_name ?edited" "list_all has_name ?added"
    using assms(3) has_name_getFormData [OF assms(1)]
    by (auto simp: list_all_iff has_name_set_id)
  have key: "fst (navigateTo PageList (alert msg (saveClients new st1))) = None"
    if "list_all wf_obj new" and "list_all has_name new" for msg new
  proof -
    have "storage (alert msg (saveClients new st1)) = Some (JSON_stringify new)"
      by (simp add: alert_def saveClients_def)
    then have "getClients (alert msg (saveClients new st1)) = Inr new"
      using that(1) by (rule getClients_stored)
    from navigateTo_list_named [OF this that(2)] show ?thesis .
  qed
  show ?thesis
  proof (cases "truthy (get_prop ?data ''id'')")
    case True
    then show ?thesis
      using ok g key [OF wf(1) nm(1)] by (simp add: handleFormSubmit_def Let_def v)
  next
    case False
    then show ?thesis
      using ok g key [OF wf(2) nm(2)] by (simp add: handleFormSubmit_def Let_def v)
  qed
qed

subsection \<open>Deleting\<close>

lemma handleDelete_storage:
  assumes "getClients st = Inr clients"
  shows "storage (snd (handleDelete clientId clientName True st)) =
     Some (JSON_stringify (filter (\<lambda>client. get_prop client ''id'' \<noteq> Some (JStr clientId)) clients))"
proof -
  let ?st1 = "saveClients (filter (\<lambda>client. get_prop client ''id'' \<noteq> Some (JStr clientId)) clients) st"
  obtain e st2 where r: "renderClientList [] ?st1 = (e, st2)"
    by (cases "renderClientList [] ?st1")
  have "storage st2 = storage ?st1"
    using renderClientList_storage [of "[]" ?st1] r by simp
  then show ?thesis
    using assms r by (cases e) (simp_all add: handleDelete_def Let_def alert_def saveClients_def)
qed

lemma handleDelete_clients:
  assumes "getClients st = Inr clients"
  shows "getClients (snd (handleDelete clientId clientName True st)) =
     Inr (filter (\<lambda>client. get_prop client ''id'' \<noteq> Some (JStr clientId)) clients)"
proof (rule getClients_stored [OF handleDelete_storage [OF assms]])
  show "list_all wf_obj (filter (\<lambda>client. get_prop client ''id'' \<noteq> Some (JStr clientId)) clients)"
    using getClients_wf [OF assms] by (simp add: list_all_iff)
qed

lemma handleDelete_no_error:
  assumes "getClients st = Inr clients" and "list_all has_name clients"
  shows "fst (handleDelete clientId clientName True st) = None"
proof -
  let ?kept = "filter (\<lambda>client. get_prop client ''id'' \<noteq> Some (JStr clientId)) clients"
  have "getClients (saveClients ?kept st) = Inr ?kept"
    using getClients_wf [OF assms(1)] by (intro getClients_saveClients) (simp add: list_all_iff)
  moreover have "list_all has_name ?kept" using assms(2) by (simp add: list_all_iff)
  ultimately have "renderClientList [] (saveClients ?kept st) =
      (None, saveClients ?kept st\<lparr>rows := filter (name_contains_ci []) ?kept\<rparr>)"
    by (rule renderClientList_named)
  then show ?thesis using assms(1) by (simp add: handleDelete_def Let_def)
qed

lemma find_none_after_filter:
  "find (\<lambda>c. get_prop c ''id'' = Some (JStr clientId))
     (filter (\<lambda>client. get_prop client ''id'' \<noteq> Some (JStr clientId)) clients) = None"
  by (simp add: find_None_iff)

subsection \<open>Sample data\<close>

lemmas eval_samples = client_ann_def client_bob_def form_bob_def form_bob_bad_email_def

lemma getFormData_form_bob: "getFormData form_bob = client_bob"
  by (simp add: eval_samples eval_form)

lemma valid_form_bob: "fst (validateFormData (getFormData form_bob) st)"
  by (simp add: eval_samples eval_form eval_validate)

lemma stored_ann: "getClients (saveClients [client_ann] initial_state) = Inr [client_ann]"
  by (rule getClients_saveClients) (simp add: wf_obj_def client_ann_def)

lemma stored_ann_bob:
  "getClients (saveClients [client_ann, client_bob] initial_state) = Inr [client_ann, client_bob]"
  by (rule getClients_saveClients) (simp add: wf_obj_def eval_samples)

lemma named_ann_bob: "list_all has_name [client_ann, client_bob]"
  by (simp add: has_name_def get_prop_def eval_samples)

subsection \<open>Saving and loading\<close>

text \<open>
  C4: for every sequence of client records (each property once, numbers exactly
  representable), saving it and loading it again returns the same sequence: order and
  every field of every record are preserved.
\<close>

theorem load_save_roundtrip:
  "list_all storable clients \<Longrightarrow> getClients (saveClients clients st) = Inr clients"
proof (rule getClients_saveClients)
  assume "list_all storable clients"
  then show "list_all wf_obj clients" by (simp add: list_all_iff storable_def)
qed

theorem load_save_roundtrip_witness:
  "list_all storable [client_ann, client_bob, [(''fullName'', JStr ''Cy''), (''age'', JNum 30)]] \<and>
   getClients (saveClients [client_ann, client_bob, [(''fullName'', JStr ''Cy''), (''age'', JNum 30)]]
     initial_state) = Inr [client_ann, client_bob, [(''fullName'', JStr ''Cy''), (''age'', JNum 30)]]"
proof -
  have h: "list_all storable [client_ann, client_bob, [(''fullName'', JStr ''Cy''), (''age'', JNum 30)]]"
    by (simp add: storable_def wf_obj_def safe_integer_def eval_samples)
  from load_save_roundtrip [OF h] h show ?thesis by simp
qed

subsection \<open>A rejected submission\<close>

text \<open>
  C5: when the submitted form (a creation or an edit) fails validation, the handler returns
  without an exception and the stored text, hence the stored sequence of records, is the
  one before; the validation message is the only part of the state that changes.
\<close>

theorem rejected_submission_keeps_store:
  assumes "\<not> fst (validateFormData (getFormData form) st)"
  shows "fst (handleFormSubmit now form st) = None
    \<and> storage (snd (handleFormSubmit now form st)) = storage st
    \<and> getClients (snd (handleFormSubmit now form st)) = getClients st
    \<and> snd (handleFormSubmit now form st) =
        st\<lparr>validation_message := validation_message (snd (handleFormSubmit now form st))\<rparr>"
proof -
  have h: "handleFormSubmit now form st = (None, snd (validateFormData (getFormData form) st))"
    using assms by (rule handleFormSubmit_rejected)
  have s: "storage (snd (handleFormSubmit now form st)) = storage st"
    by (simp add: h)
  have m: "snd (handleFormSubmit now form st) =
        st\<lparr>validation_message := validation_message (snd (handleFormSubmit now form st))\<rparr>"
    using validateFormData_rejects [OF assms] unfolding h by auto
  show ?thesis
    using s m getClients_same_storage [OF s] by (simp add: h)
qed

theorem rejected_submission_keeps_store_witness:
  "\<not> fst (validateFormData (getFormData form_bob_bad_email)
        (saveClients [client_ann, client_bob] initial_state))
   \<and> fst (handleFormSubmit 1700000000000 form_bob_bad_email
        (saveClients [client_ann, client_bob] initial_state)) = None
   \<and> getClients (snd (handleFormSubmit 1700000000000 form_bob_bad_email
        (saveClients [client_ann, client_bob] initial_state))) = Inr [client_ann, client_bob]"
proof -
  have h: "\<not> fst (validateFormData (getFormData form_bob_bad_email)
        (saveClients [client_ann, client_bob] initial_state))"
    by (simp add: eval_samples eval_form eval_validate)
  from rejected_submission_keeps_store [OF h, of 1700000000000] h show ?thesis
    by (simp add: stored_ann_bob)
qed

lemma valid_form_edit_cy: "fst (validateFormData (getFormData form_edit_cy) st)"
  by (simp add: form_edit_cy_def eval_form eval_validate)

lemma edit_form_edit_cy: "truthy (get_prop (getFormData form_edit_cy) ''id'')"
  by (simp add: form_edit_cy_def eval_form)

lemma edit_form_bob: "truthy (get_prop (getFormData form_bob) ''id'')"
  by (simp add: form_bob_def eval_form)

subsection \<open>Editing a client\<close>

text \<open>
  C1, as the spec states it: an update whose id matches no stored record fails with a
  not-found error. The code has no such failure: with Ann (id 1) and Bob (id 2) stored, the
  edit form submitted with id 3 raises nothing, leaves the stored sequence as it was, and
  reports success.
\<close>

theorem update_missing_id_reports_success:
  "getClients (saveClients [client_ann, client_bob] initial_state) = Inr [client_ann, client_bob]
   \<and> find (\<lambda>c. get_prop c ''id'' = get_prop (getFormData form_edit_cy) ''id'')
        [client_ann, client_bob] = None
   \<and> fst (handleFormSubmit 1700000000000 form_edit_cy
        (saveClients [client_ann, client_bob] initial_state)) = None
   \<and> getClients (snd (handleFormSubmit 1700000000000 form_edit_cy
        (saveClients [client_ann, client_bob] initial_state))) = Inr [client_ann, client_bob]
   \<and> alerts (snd (handleFormSubmit 1700000000000 form_edit_cy
        (saveClients [client_ann, client_bob] initial_state))) =
        [''Client Cy Orr updated successfully!'']"
proof -
  let ?st = "saveClients [client_ann, client_bob] initial_state"
  have nf: "find (\<lambda>c. get_prop c ''id'' = get_prop (getFormData form_edit_cy) ''id'')
        [client_ann, client_bob] = None"
    by (simp add: eval_samples form_edit_cy_def eval_form)
  have e: "fst (handleFormSubmit 1700000000000 form_edit_cy ?st) = None"
    using valid_form_edit_cy stored_ann_bob named_ann_bob by (rule handleFormSubmit_no_error)
  have c: "getClients (snd (handleFormSubmit 1700000000000 form_edit_cy ?st)) =
      Inr [client_ann, client_bob]"
    using handleFormSubmit_edit_clients [OF valid_form_edit_cy stored_ann_bob edit_form_edit_cy]
    by (simp add: eval_samples form_edit_cy_def eval_form)
  have a: "alerts (snd (handleFormSubmit 1700000000000 form_edit_cy ?st)) =
      [''Client Cy Orr updated successfully!'']"
    using handleFormSubmit_alerts [OF valid_form_edit_cy stored_ann_bob]
    by (simp add: form_edit_cy_def eval_form saveClients_def initial_state_def)
  show ?thesis using stored_ann_bob nf e c a by simp
qed

text \<open>
  C1, amended: a valid edit submission (a form whose \<open>id\<close> is not empty) replaces every
  stored record whose \<open>id\<close> equals the form's by the form data, which carries that same
  \<open>id\<close>, and persists the result. When no stored record has that \<open>id\<close>, the submission does
  not fail: the stored sequence is persisted as it was. In both cases the alert reports the
  client as updated, and no exception is raised when every stored client has a name.
\<close>

theorem update_replaces_matching_records:
  assumes "fst (validateFormData (getFormData form) st)"
    and "getClients st = Inr clients"
    and "truthy (get_prop (getFormData form) ''id'')"
  shows "getClients (snd (handleFormSubmit now form st)) =
      Inr (map (\<lambda>client. if get_prop client ''id'' = get_prop (getFormData form) ''id''
                 then getFormData form else client) clients)
    \<and> storage (snd (handleFormSubmit now form st)) =
      Some (JSON_stringify (map (\<lambda>client.
        if get_prop client ''id'' = get_prop (getFormData form) ''id''
        then getFormData form else client) clients))
    \<and> (list_all (\<lambda>client. get_prop client ''id'' \<noteq> get_prop (getFormData form) ''id'') clients
      \<longrightarrow> getClients (snd (handleFormSubmit now form st)) = Inr clients)
    \<and> alerts (snd (handleFormSubmit now form st)) =
      alerts st @ [''Client '' @ to_str (get_prop (getFormData form) ''fullName'')
        @ '' updated successfully!'']
    \<and> (list_all has_name clients \<longrightarrow> fst (handleFormSubmit now form st) = None)"
proof -
  have c: "getClients (snd (handleFormSubmit now form st)) =
      Inr (map (\<lambda>client. if get_prop client ''id'' = get_prop (getFormData form) ''id''
                 then getFormData form else client) clients)"
    using assms by (rule handleFormSubmit_edit_clients)
  have s: "storage (snd (handleFormSubmit now form st)) =
      Some (JSON_stringify (map (\<lambda>client.
        if get_prop client ''id'' = get_prop (getFormData form) ''id''
        then getFormData form else client) clients))"
    using assms by (rule handleFormSubmit_edit_storage)
  have n: "getClients (snd (handleFormSubmit now form st)) = Inr clients"
    if "list_all (\<lambda>client. get_prop client ''id'' \<noteq> get_prop (getFormData form) ''id'') clients"
  proof -
    have "map (\<lambda>client. if get_prop client ''id'' = get_prop (getFormData form) ''id''
                 then getFormData form else client) clients = clients"
      using that by (induction clients) simp_all
    with c show ?thesis by simp
  qed
  have a: "alerts (snd (handleFormSubmit now form st)) =
      alerts st @ [''Client '' @ to_str (get_prop (getFormData form) ''fullName'')
        @ '' updated successfully!'']"
    using handleFormSubmit_alerts [OF assms(1,2), of now] assms(3) by simp
  have e: "fst (handleFormSubmit now form st) = None" if "list_all has_name clients"
    using assms(1,2) that by (rule handleFormSubmit_no_error)
  show ?thesis
    apply (intro conjI impI)
    subgoal by (rule c)
    subgoal by (rule s)
    subgoal by (rule n)
    subgoal by (rule a)
    subgoal by (rule e)
    done
qed

theorem update_replaces_matching_records_witness:
  "fst (validateFormData (getFormData form_bob) (saveClients [client_ann, client_bob] initial_state))
   \<and> getClients (saveClients [client_ann, client_bob] initial_state) = Inr [client_ann, client_bob]
   \<and> truthy (get_prop (getFormData form_bob) ''id'')
   \<and> getClients (snd (handleFormSubmit 1700000000000 form_bob
        (saveClients [client_ann, client_bob] initial_state))) = Inr [client_ann, client_bob]"
proof -
  have "getClients (snd (handleFormSubmit 1700000000000 form_bob
        (saveClients [client_ann, client_bob] initial_state))) =
      Inr (map (\<lambda>client. if get_prop client ''id'' = get_prop (getFormData form_bob) ''id''
                 then getFormData form_bob else client) [client_ann, client_bob])"
    using update_replaces_matching_records [OF valid_form_bob stored_ann_bob edit_form_bob]
    by blast
  then have "getClients (snd (handleFormSubmit 1700000000000 form_bob
        (saveClients [client_ann, client_bob] initial_state))) = Inr [client_ann, client_bob]"
    by (simp add: getFormData_form_bob) (simp add: eval_samples get_prop_def)
  then show ?thesis
    using valid_form_bob stored_ann_bob edit_form_bob by simp
qed

text \<open>
  C10: after a successful update the stored sequence has the same length; at every position
  a record whose \<open>id\<close> differs from the form's is the record that was there, and a record
  whose \<open>id\<close> equals the form's is replaced where it stands.
\<close>

theorem update_keeps_positions:
  assumes "fst (validateFormData (getFormData form) st)"
    and "getClients st = Inr clients"
    and "truthy (get_prop (getFormData form) ''id'')"
  shows "\<exists>clients1. getClients (snd (handleFormSubmit now form st)) = Inr clients1
    \<and> length clients1 = length clients
    \<and> (\<forall>i<length clients.
          if get_prop (clients ! i) ''id'' = get_prop (getFormData form) ''id''
          then clients1 ! i = getFormData form
          else clients1 ! i = clients ! i)"
proof -
  let ?clients1 = "map (\<lambda>client. if get_prop client ''id'' = get_prop (getFormData form) ''id''
                 then getFormData form else client) clients"
  have "getClients (snd (handleFormSubmit now form st)) = Inr ?clients1"
    using assms by (rule handleFormSubmit_edit_clients)
  moreover have "length ?clients1 = length clients" by simp
  moreover have "\<forall>i<length clients.
          if get_prop (clients ! i) ''id'' = get_prop (getFormData form) ''id''
          then ?clients1 ! i = getFormData form
          else ?clients1 ! i = clients ! i"
    by simp
  ultimately show ?thesis by blast
qed

theorem update_keeps_positions_witness:
  "fst (validateFormData (getFormData form_edit_ann)
        (saveClients [client_ann, client_bob] initial_state))
   \<and> getClients (saveClients [client_ann, client_bob] initial_state) = Inr [client_ann, client_bob]
   \<and> truthy (get_prop (getFormData form_edit_ann) ''id'')
   \<and> getClients (snd (handleFormSubmit 1700000000000 form_edit_ann
        (saveClients [client_ann, client_bob] initial_state))) =
      Inr [[(''id'', JStr ''1''), (''fullName'', JStr ''Ann Lee-Ray''),
            (''email'', JStr ''ann@example.org''), (''startDate'', JStr ''2024-01-01'')], client_bob]"
proof -
  let ?st = "saveClients [client_ann, client_bob] initial_state"
  have v: "fst (validateFormData (getFormData form_edit_ann) ?st)"
    by (simp add: form_edit_ann_def eval_form eval_validate)
  have t: "truthy (get_prop (getFormData form_edit_ann) ''id'')"
    by (simp add: form_edit_ann_def eval_form)
  obtain clients1 where c: "getClients (snd (handleFormSubmit 1700000000000 form_edit_ann ?st)) = Inr clients1"
    and l: "length clients1 = length [client_ann, client_bob]"
    and p: "\<forall>i<length [client_ann, client_bob].
          if get_prop ([client_ann, client_bob] ! i) ''id'' = get_prop (getFormData form_edit_ann) ''id''
          then clients1 ! i = getFormData form_edit_ann
          else clients1 ! i = [client_ann, client_bob] ! i"
    using update_keeps_positions [OF v stored_ann_bob t, of 1700000000000] by blast
  from p have "clients1 ! 0 = getFormData form_edit_ann"
    by (auto simp: eval_samples form_edit_ann_def eval_form)
  moreover from p have "clients1 ! 1 = client_bob"
    by (auto simp: eval_samples form_edit_ann_def eval_form)
  moreover from l obtain x y where "clients1 = [x, y]"
    by (cases clients1; cases "tl clients1"; auto)
  ultimately have "clients1 = [getFormData form_edit_ann, client_bob]" by simp
  then have "clients1 = [[(''id'', JStr ''1''), (''fullName'', JStr ''Ann Lee-Ray''),
            (''email'', JStr ''ann@example.org''), (''startDate'', JStr ''2024-01-01'')], client_bob]"
    by (simp add: form_edit_ann_def eval_form)
  with c v t stored_ann_bob show ?thesis by simp
qed

subsection \<open>Deleting a client\<close>

text \<open>
  C7: on a store whose clients have names, after a confirmed delete of \<open>clientId\<close> looking
  that id up finds nothing and viewing it shows the not-found notice; the delete raises
  nothing, also when no record has that id, in which case the stored sequence is unchanged;
  and a second delete of the same id raises nothing and leaves the storage as the first one
  left it.
\<close>

theorem delete_then_find_not_found:
  assumes "getClients st = Inr clients" and "list_all has_name clients"
  shows "fst (handleDelete clientId clientName True st) = None
    \<and> getClients (snd (handleDelete clientId clientName True st)) =
        Inr (filter (\<lambda>client. get_prop client ''id'' \<noteq> Some (JStr clientId)) clients)
    \<and> findClient clientId (snd (handleDelete clientId clientName True st)) = Inr None
    \<and> handleView clientId (snd (handleDelete clientId clientName True st)) =
        (None, alert ''Client not found!'' (snd (handleDelete clientId clientName True st)))
    \<and> (list_all (\<lambda>client. get_prop client ''id'' \<noteq> Some (JStr clientId)) clients \<longrightarrow>
         getClients (snd (handleDelete clientId clientName True st)) = Inr clients)
    \<and> fst (handleDelete clientId clientName True
         (snd (handleDelete clientId clientName True st))) = None
    \<and> storage (snd (handleDelete clientId clientName True
         (snd (handleDelete clientId clientName True st)))) =
       storage (snd (handleDelete clientId clientName True st))"
proof -
  let ?kept = "filter (\<lambda>client. get_prop client ''id'' \<noteq> Some (JStr clientId)) clients"
  let ?st1 = "snd (handleDelete clientId clientName True st)"
  have e: "fst (handleDelete clientId clientName True st) = None"
    using assms by (rule handleDelete_no_error)
  have c: "getClients ?st1 = Inr ?kept"
    using assms(1) by (rule handleDelete_clients)
  have f: "findClient clientId ?st1 = Inr None"
    by (simp add: findClient_def c find_none_after_filter)
  have n: "getClients ?st1 = Inr clients"
    if "list_all (\<lambda>client. get_prop client ''id'' \<noteq> Some (JStr clientId)) clients"
  proof -
    have "?kept = clients" using that by (simp add: list_all_iff)
    with c show ?thesis by simp
  qed
  have k: "list_all has_name ?kept" using assms(2) by (simp add: list_all_iff)
  have e2: "fst (handleDelete clientId clientName True ?st1) = None"
    using c k by (rule handleDelete_no_error)
  have "storage (snd (handleDelete clientId clientName True ?st1)) =
      Some (JSON_stringify (filter (\<lambda>client. get_prop client ''id'' \<noteq> Some (JStr clientId)) ?kept))"
    using c by (rule handleDelete_storage)
  moreover have "storage ?st1 = Some (JSON_stringify ?kept)"
    using assms(1) by (rule handleDelete_storage)
  ultimately have s: "storage (snd (handleDelete clientId clientName True ?st1)) = storage ?st1"
    by simp
  show ?thesis
    apply (intro conjI impI)
    subgoal by (rule e)
    subgoal by (rule c)
    subgoal by (rule f)
    subgoal by (simp add: handleView_def f)
    subgoal by (rule n)
    subgoal by (rule e2)
    subgoal by (rule s)
    done
qed

theorem delete_then_find_not_found_witness:
  "getClients (saveClients [client_ann, client_bob] initial_state) = Inr [client_ann, client_bob]
   \<and> list_all has_name [client_ann, client_bob]
   \<and> fst (handleDelete ''1'' ''Ann Lee'' True
        (saveClients [client_ann, client_bob] initial_state)) = None
   \<and> getClients (snd (handleDelete ''1'' ''Ann Lee'' True
        (saveClients [client_ann, client_bob] initial_state))) = Inr [client_bob]
   \<and> findClient ''1'' (snd (handleDelete ''1'' ''Ann Lee'' True
        (saveClients [client_ann, client_bob] initial_state))) = Inr None"
proof -
  have "filter (\<lambda>client. get_prop client ''id'' \<noteq> Some (JStr ''1'')) [client_ann, client_bob]
      = [client_bob]"
    by (simp add: eval_samples get_prop_def)
  with delete_then_find_not_found [OF stored_ann_bob named_ann_bob, of "''1''" "''Ann Lee''"]
    stored_ann_bob named_ann_bob
  show ?thesis by simp
qed

subsection \<open>Searching\<close>




subsection \<open>Creating a client\<close>

lemma toString_sample: "toString 1700000000000 = ''1700000000000''"
  by (simp add: toString_def show_nat.simps digit_char_def)

lemma getClients_initial: "getClients initial_state = Inr []"
  by (simp add: getClients_def initial_state_def)

lemma created_ann_eq:
  "set_prop ''id'' (JStr (toString 1700000000000)) (getFormData form_new_ann) = created_ann"
  by (simp add: toString_sample) (simp add: form_new_ann_def created_ann_def eval_form)

lemma created_bob_eq:
  "set_prop ''id'' (JStr (toString 1700000000000)) (getFormData form_new_bob) = created_bob"
  by (simp add: toString_sample) (simp add: form_new_bob_def created_bob_def eval_form)

lemma valid_form_new_ann: "fst (validateFormData (getFormData form_new_ann) st)"
  by (simp add: form_new_ann_def eval_form eval_validate)

lemma valid_form_new_bob: "fst (validateFormData (getFormData form_new_bob) st)"
  by (simp add: form_new_bob_def eval_form eval_validate)

lemma new_form_new_ann: "\<not> truthy (get_prop (getFormData form_new_ann) ''id'')"
  by (simp add: form_new_ann_def eval_form)

lemma new_form_new_bob: "\<not> truthy (get_prop (getFormData form_new_bob) ''id'')"
  by (simp add: form_new_bob_def eval_form)

lemma first_creation:
  "getClients (snd (handleFormSubmit 1700000000000 form_new_ann initial_state)) = Inr [created_ann]"
  using handleFormSubmit_create_clients [OF valid_form_new_ann getClients_initial new_form_new_ann,
      of 1700000000000]
  by (simp add: created_ann_eq)

lemma second_creation:
  "getClients (snd (handleFormSubmit 1700000000000 form_new_bob
     (snd (handleFormSubmit 1700000000000 form_new_ann initial_state)))) =
   Inr [created_ann, created_bob]"
  using handleFormSubmit_create_clients [OF valid_form_new_bob first_creation new_form_new_bob,
      of 1700000000000]
  by (simp add: created_bob_eq)

text \<open>
  C2, at a failing input: two creations handled at the same reading of the clock (the ids
  are the decimal text of \<^verbatim>\<open>Date.now()\<close>, in milliseconds). Both records are stored, with the
  same id.
\<close>

theorem same_clock_reading_same_id:
  "getClients (snd (handleFormSubmit 1700000000000 form_new_bob
     (snd (handleFormSubmit 1700000000000 form_new_ann initial_state)))) =
   Inr [created_ann, created_bob]
   \<and> get_prop created_ann ''id'' = Some (JStr ''1700000000000'')
   \<and> get_prop created_bob ''id'' = Some (JStr ''1700000000000'')"
  using second_creation by (simp add: created_ann_def created_bob_def get_prop_def)

text \<open>
  C8, at the same failing input: looking up the id assigned to the second creation returns
  the first record, whose name is not the candidate's.
\<close>

theorem find_after_colliding_create:
  "findClient ''1700000000000'' (snd (handleFormSubmit 1700000000000 form_new_bob
     (snd (handleFormSubmit 1700000000000 form_new_ann initial_state)))) = Inr (Some created_ann)
   \<and> get_prop created_ann ''fullName'' = Some (JStr ''Ann Lee'')
   \<and> get_prop (getFormData form_new_bob) ''fullName'' = Some (JStr ''Bob Ray'')"
  using second_creation
  by (simp add: findClient_def)
     (simp add: created_ann_def created_bob_def form_new_bob_def eval_form)

text \<open>When no stored record has the id that the clock reading gives, the lookup of that id
  after the creation returns the new record: the form data with the id added.\<close>

lemma get_prop_set_prop_same: "get_prop (set_prop k v ob) k = Some v"
  by (simp add: get_prop_def set_prop_def update_conv')

lemma get_prop_set_prop_other: "k' \<noteq> k \<Longrightarrow> get_prop (set_prop k v ob) k' = get_prop ob k'"
  by (simp add: get_prop_def set_prop_def update_conv')

lemma create_then_find_fresh:
  assumes "fst (validateFormData (getFormData form) st)"
    and "getClients st = Inr clients"
    and "\<not> truthy (get_prop (getFormData form) ''id'')"
    and "list_all (\<lambda>client. get_prop client ''id'' \<noteq> Some (JStr (toString now))) clients"
  shows "findClient (toString now) (snd (handleFormSubmit now form st)) =
      Inr (Some (set_prop ''id'' (JStr (toString now)) (getFormData form)))"
proof -
  have "find (\<lambda>c. get_prop c ''id'' = Some (JStr (toString now)))
      (clients @ [set_prop ''id'' (JStr (toString now)) (getFormData form)]) =
      Some (set_prop ''id'' (JStr (toString now)) (getFormData form))"
    using assms(4) by (induction clients) (simp_all add: get_prop_set_prop_same)
  then show ?thesis
    using handleFormSubmit_create_clients [OF assms(1,2,3), of now]
    by (simp add: findClient_def)
qed

subsection \<open>The type of the stored age\<close>

lemma string_valued_update:
  "string_valued ob \<Longrightarrow> string_valued (set_prop k (JStr s) ob)"
  unfolding string_valued_def set_prop_def
  by (induction ob) auto

lemma string_valued_getFormData_aux:
  "string_valued acc \<Longrightarrow>
   string_valued (foldl (\<lambda>data (key, val). set_prop key (JStr val) data) acc form)"
  by (induction form arbitrary: acc) (auto simp: string_valued_update)

lemma string_valued_getFormData: "string_valued (getFormData form)"
proof -
  have "string_valued []" by (simp add: string_valued_def)
  then show ?thesis unfolding getFormData_def by (rule string_valued_getFormData_aux)
qed

lemma string_valued_age: "string_valued ob \<Longrightarrow> age_absent_or_string ob"
proof -
  assume a: "string_valued ob"
  show ?thesis
  proof (cases "get_prop ob ''age''")
    case None
    then show ?thesis by (simp add: age_absent_or_string_def)
  next
    case (Some v)
    then have "(''age'', v) \<in> set ob" by (simp add: get_prop_def map_of_SomeD)
    with a have "case v of JStr s \<Rightarrow> True | JNum n \<Rightarrow> False"
      by (auto simp: string_valued_def list_all_iff)
    with Some show ?thesis by (cases v) (simp_all add: age_absent_or_string_def)
  qed
qed

lemma stores_all_same_storage:
  "storage st' = storage st \<Longrightarrow> stores_all P st \<Longrightarrow> stores_all P st'"
  using getClients_same_storage [of st' st] by (simp add: stores_all_def)

lemma handleView_storage [simp]: "storage (snd (handleView clientId st)) = storage st"
  by (simp add: handleView_def alert_def split: sum.splits option.splits)

text \<open>A property of clients that every validated form has, and that assigning the id keeps,
  holds of everything a submission stores.\<close>

lemma stores_all_submit:
  assumes "stores_all P st"
    and "fst (validateFormData (getFormData form) st) \<Longrightarrow> P (getFormData form)"
    and "\<And>ob v. P ob \<Longrightarrow> P (set_prop ''id'' (JStr v) ob)"
  shows "stores_all P (snd (handleFormSubmit now form st))"
proof -
  from assms(1) obtain clients where g: "getClients st = Inr clients"
    and sv: "list_all P clients"
    by (auto simp: stores_all_def split: sum.splits)
  let ?data = "getFormData form"
  show ?thesis
  proof (cases "fst (validateFormData ?data st)")
    case False
    then have "storage (snd (handleFormSubmit now form st)) = storage st"
      by (simp add: handleFormSubmit_rejected)
    then show ?thesis using assms(1) by (rule stores_all_same_storage)
  next
    case True
    then have d: "P ?data" by (rule assms(2))
    show ?thesis
    proof (cases "truthy (get_prop ?data ''id'')")
      case edit: True
      have "list_all P (map (\<lambda>client.
          if get_prop client ''id'' = get_prop ?data ''id'' then ?data else client) clients)"
        using sv d by (auto simp: list_all_iff)
      then show ?thesis
        using handleFormSubmit_edit_clients [OF True g edit, of now]
        by (simp add: stores_all_def)
    next
      case new: False
      have "list_all P (clients @ [set_prop ''id'' (JStr (toString now)) ?data])"
        using sv d by (simp add: assms(3))
      then show ?thesis
        using handleFormSubmit_create_clients [OF True g new, of now]
        by (simp add: stores_all_def)
    qed
  qed
qed

lemma stores_all_delete:
  assumes "stores_all P st"
  shows "stores_all P (snd (handleDelete clientId clientName confirmed st))"
proof (cases confirmed)
  case False
  then show ?thesis using assms by (simp add: handleDelete_def)
next
  case True
  from assms obtain clients where g: "getClients st = Inr clients"
    and sv: "list_all P clients"
    by (auto simp: stores_all_def split: sum.splits)
  have "list_all P (filter (\<lambda>client. get_prop client ''id'' \<noteq> Some (JStr clientId)) clients)"
    using sv by (simp add: list_all_iff)
  then show ?thesis
    using handleDelete_clients [OF g, of clientId clientName] True
    by (simp add: stores_all_def)
qed

lemma reachable_stores_all:
  assumes "reachable st"
    and "\<And>form st. fst (validateFormData (getFormData form) st) \<Longrightarrow> P (getFormData form)"
    and "\<And>ob v. P ob \<Longrightarrow> P (set_prop ''id'' (JStr v) ob)"
  shows "stores_all P st"
  using assms(1)
proof (induction rule: reachable.induct)
  case start
  show ?case by (simp add: stores_all_def getClients_initial)
next
  case (submit st now form)
  then show ?case by (intro stores_all_submit assms(2,3))
next
  case (delete st clientId clientName confirmed)
  then show ?case by (simp add: stores_all_delete)
next
  case (search st query)
  have "storage (snd (handleSearch query st)) = storage st" by (simp add: handleSearch_def)
  then show ?case using search.IH by (rule stores_all_same_storage)
next
  case (view st clientId)
  have "storage (snd (handleView clientId st)) = storage st" by simp
  then show ?case using view.IH by (rule stores_all_same_storage)
next
  case (navigate st pageName)
  have "storage (snd (navigateTo pageName st)) = storage st" by simp
  then show ?case using navigate.IH by (rule stores_all_same_storage)
qed

lemma reachable_stores_strings: "reachable st \<Longrightarrow> stores_all string_valued st"
  by (rule reachable_stores_all) (simp_all add: string_valued_getFormData string_valued_update)

text \<open>In every state the page can reach the stored clients have names, which is what the
  statements about searching and deleting assume of the store.\<close>

lemma reachable_stores_named: "reachable st \<Longrightarrow> stores_all has_name st"
  by (rule reachable_stores_all) (simp_all add: has_name_getFormData has_name_set_id)

text \<open>
  C9, as the spec states it: the age of a persisted record is absent or an integer. The form
  delivers strings and nothing converts them: the record created from a form with age 30
  stores the string \<open>''30''\<close>.
\<close>

theorem stored_age_is_a_string:
  "getClients (snd (handleFormSubmit 1700000000000 form_new_ann initial_state)) = Inr [created_ann]
   \<and> get_prop created_ann ''age'' = Some (JStr ''30'')
   \<and> \<not> age_absent_or_integer created_ann"
  using first_creation
  by (simp add: age_absent_or_integer_def) (simp add: created_ann_def get_prop_def)

text \<open>
  C9, amended: in every state the page can reach, the stored clients can be read and the age
  of each is absent or a string (the text of the form field, possibly empty).
\<close>

theorem persisted_age_absent_or_string:
  "reachable st \<Longrightarrow>
   \<exists>clients. getClients st = Inr clients \<and> list_all age_absent_or_string clients"
proof -
  assume "reachable st"
  then have "stores_all string_valued st" by (rule reachable_stores_strings)
  then obtain clients where g: "getClients st = Inr clients"
    and sv: "list_all string_valued clients"
    by (auto simp: stores_all_def split: sum.splits)
  from sv have "list_all age_absent_or_string clients"
    by (auto simp: list_all_iff string_valued_age)
  with g show ?thesis by blast
qed

theorem persisted_age_absent_or_string_witness:
  "reachable (snd (handleFormSubmit 1700000000000 form_new_ann initial_state))
   \<and> getClients (snd (handleFormSubmit 1700000000000 form_new_ann initial_state)) = Inr [created_ann]
   \<and> list_all age_absent_or_string [created_ann]"
proof -
  have r: "reachable (snd (handleFormSubmit 1700000000000 form_new_ann initial_state))"
    by (rule reachable.submit) (rule reachable.start)
  from persisted_age_absent_or_string [OF r] first_creation r show ?thesis by auto
qed

end
